theory Spec2Isabelle
  imports Main "HOL-Library.Sublist" "HOL-Library.AList"
begin

section \<open>Decoded JSON values and the Python operations the client applies to them\<close>

text \<open>
  \<^verbatim>\<open>response.json()\<close> yields a Python value built from \<^verbatim>\<open>None\<close>, booleans,
  numbers, strings, lists and dictionaries. Dictionaries keep insertion order, so an object
  is an association list (keys distinct, looked up with \<^const>\<open>map_of\<close>). Numbers are
  the integers; strings are sequences of code points below 256.
\<close>

datatype json =
    JNull
  | JBool bool
  | JNum int
  | JStr string
  | JArr "json list"
  | JObj "(string \<times> json) list"

text \<open>The exceptions that can arise inside the client.\<close>

datatype py_exn =
    TypeError
  | AttributeError
  | KeyError
  | IndexError
  | JSONDecodeError
  | RequestsTimeout
  | RequestsConnectionError
  | OtherException

text \<open>\<^verbatim>\<open>key in x\<close>: membership in a dictionary's keys, a list's elements or a string's
  substrings; any other operand is not iterable.\<close>

fun py_in :: "string \<Rightarrow> json \<Rightarrow> py_exn + bool" where
  "py_in k (JObj kvs) = Inr (k \<in> fst ` set kvs)"
| "py_in k (JArr xs) = Inr (JStr k \<in> set xs)"
| "py_in k (JStr s) = Inr (sublist k s)"
| "py_in k JNull = Inl TypeError"
| "py_in k (JBool b) = Inl TypeError"
| "py_in k (JNum n) = Inl TypeError"

text \<open>\<^verbatim>\<open>x[key]\<close> with a string key: only a dictionary accepts it.\<close>

fun py_getitem :: "json \<Rightarrow> string \<Rightarrow> py_exn + json" where
  "py_getitem (JObj kvs) k = (case map_of kvs k of None \<Rightarrow> Inl KeyError | Some v \<Rightarrow> Inr v)"
| "py_getitem _ k = Inl TypeError"

text \<open>\<^verbatim>\<open>x.get(key, default)\<close>: only a dictionary has the method.\<close>

fun py_get :: "json \<Rightarrow> string \<Rightarrow> json \<Rightarrow> py_exn + json" where
  "py_get (JObj kvs) k d = (case map_of kvs k of None \<Rightarrow> Inr d | Some v \<Rightarrow> Inr v)"
| "py_get _ k d = Inl AttributeError"

text \<open>Truth value of a decoded value.\<close>

fun py_truthy :: "json \<Rightarrow> bool" where
  "py_truthy JNull = False"
| "py_truthy (JBool b) = b"
| "py_truthy (JNum n) = (n \<noteq> 0)"
| "py_truthy (JStr s) = (s \<noteq> [])"
| "py_truthy (JArr xs) = (xs \<noteq> [])"
| "py_truthy (JObj kvs) = (kvs \<noteq> [])"

text \<open>\<^verbatim>\<open>x < n\<close> for an integer \<^verbatim>\<open>n\<close>: numbers and booleans compare, anything
  else raises.\<close>

fun py_less_int :: "json \<Rightarrow> int \<Rightarrow> py_exn + bool" where
  "py_less_int (JNum m) n = Inr (m < n)"
| "py_less_int (JBool b) n = Inr ((if b then 1 else 0) < n)"
| "py_less_int _ n = Inl TypeError"

text \<open>\<^verbatim>\<open>for err in x\<close>: the elements of a list, the keys of a dictionary, the
  characters of a string.\<close>

fun py_iter :: "json \<Rightarrow> py_exn + json list" where
  "py_iter (JArr xs) = Inr xs"
| "py_iter (JObj kvs) = Inr (map (\<lambda>kv. JStr (fst kv)) kvs)"
| "py_iter (JStr s) = Inr (map (\<lambda>c. JStr [c]) s)"
| "py_iter _ = Inl TypeError"

text \<open>\<^verbatim>\<open>any(f(x) for x in xs)\<close>: stops at the first true element, and at the first
  element on which \<^verbatim>\<open>f\<close> raises.\<close>

fun py_any :: "('a \<Rightarrow> py_exn + bool) \<Rightarrow> 'a list \<Rightarrow> py_exn + bool" where
  "py_any f [] = Inr False"
| "py_any f (x # xs) =
     (case f x of Inl e \<Rightarrow> Inl e | Inr True \<Rightarrow> Inr True | Inr False \<Rightarrow> py_any f xs)"

subsection \<open>\<^verbatim>\<open>str\<close>, \<^verbatim>\<open>repr\<close> and \<^verbatim>\<open>lower\<close>\<close>

definition digit_char :: "nat \<Rightarrow> char" where
  "digit_char n = char_of (48 + n)"

fun nat_digits :: "nat \<Rightarrow> string" where
  "nat_digits n =
     (if n < 10 then [digit_char n] else nat_digits (n div 10) @ [digit_char (n mod 10)])"

definition py_int_str :: "int \<Rightarrow> string" where
  "py_int_str i = (if i < 0 then CHR ''-'' # nat_digits (nat (- i)) else nat_digits (nat i))"

definition hex_char :: "nat \<Rightarrow> char" where
  "hex_char n = (if n < 10 then char_of (48 + n) else char_of (87 + n))"

text \<open>\<^verbatim>\<open>repr\<close> of a string: double quotes only when the string has a single quote and
  no double quote; the quote and the backslash are escaped, control and unprintable
  characters are written as escapes.\<close>

definition repr_quote :: "string \<Rightarrow> char" where
  "repr_quote s = (if CHR 0x27 \<in> set s \<and> CHR 0x22 \<notin> set s then CHR 0x22 else CHR 0x27)"

definition repr_char :: "char \<Rightarrow> char \<Rightarrow> string" where
  "repr_char q c =
     (let n = (of_char c :: nat) in
      if c = q \<or> c = CHR 0x5C then [CHR 0x5C, c]
      else if n = 9 then [CHR 0x5C, CHR ''t'']
      else if n = 10 then [CHR 0x5C, CHR ''n'']
      else if n = 13 then [CHR 0x5C, CHR ''r'']
      else if n < 32 \<or> n = 127 \<or> (128 \<le> n \<and> n \<le> 160) \<or> n = 173
        then [CHR 0x5C, CHR ''x'', hex_char (n div 16), hex_char (n mod 16)]
      else [c])"

definition py_repr_str :: "string \<Rightarrow> string" where
  "py_repr_str s = (let q = repr_quote s in q # concat (map (repr_char q) s) @ [q])"

fun join_strs :: "string \<Rightarrow> string list \<Rightarrow> string" where
  "join_strs sep [] = []"
| "join_strs sep [x] = x"
| "join_strs sep (x # y # ys) = x @ sep @ join_strs sep (y # ys)"

fun py_repr :: "json \<Rightarrow> string" where
  "py_repr JNull = ''None''"
| "py_repr (JBool b) = (if b then ''True'' else ''False'')"
| "py_repr (JNum n) = py_int_str n"
| "py_repr (JStr s) = py_repr_str s"
| "py_repr (JArr xs) = ''['' @ join_strs '', '' (map py_repr xs) @ '']''"
| "py_repr (JObj kvs) =
     ''{'' @ join_strs '', '' (map (\<lambda>kv. py_repr_str (fst kv) @ '': '' @ py_repr (snd kv)) kvs)
       @ ''}''"

fun py_str :: "json \<Rightarrow> string" where
  "py_str (JStr s) = s"
| "py_str v = py_repr v"

definition lower_char :: "char \<Rightarrow> char" where
  "lower_char c =
     (let n = (of_char c :: nat) in
      if (65 \<le> n \<and> n \<le> 90) \<or> (192 \<le> n \<and> n \<le> 222 \<and> n \<noteq> 215) then char_of (n + 32) else c)"

definition py_lower :: "string \<Rightarrow> string" where
  "py_lower s = map lower_char s"

section \<open>The client, its network and its clock\<close>

text \<open>
  The network and the random generator are scripts: the outcome of the \<open>k\<close>-th
  \<^verbatim>\<open>session.post\<close> call and the \<open>k\<close>-th \<^verbatim>\<open>random.randint(0, 10)\<close> draw. A
  response is a status code and the decoded body (\<open>None\<close> when \<^verbatim>\<open>response.json()\<close>
  raises); a call may also raise.
\<close>

datatype net_outcome =
    Response int "json option"
  | Raises py_exn

record world =
  net :: "nat \<Rightarrow> net_outcome"
  randint :: "nat \<Rightarrow> nat"

text \<open>What the client does to the outside, in order: the two kinds of request with the
  bearer key they carry (the data call also with its payload), and the pauses.\<close>

datatype event =
    RateLimitPost string
  | DataPost string "(string \<times> json) list"
  | Sleep nat
  | SleepHalf

record client_state =
  api_keys :: "string list"
  current_key_index :: nat
  posts :: nat
  draws :: nat
  trace :: "event list"

definition RATE_LIMIT_THRESHOLD :: int where
  "RATE_LIMIT_THRESHOLD = 100"

definition try_then :: "py_exn + 'a \<Rightarrow> ('a \<Rightarrow> py_exn + 'b) \<Rightarrow> py_exn + 'b" where
  "try_then m f = (case m of Inl e \<Rightarrow> Inl e | Inr x \<Rightarrow> f x)"

definition current_key :: "client_state \<Rightarrow> py_exn + string" where
  "current_key s =
     (if current_key_index s < length (api_keys s)
      then Inr (api_keys s ! current_key_index s) else Inl IndexError)"

definition session_post :: "world \<Rightarrow> event \<Rightarrow> client_state \<Rightarrow> net_outcome \<times> client_state" where
  "session_post w ev s = (net w (posts s), s\<lparr>posts := posts s + 1, trace := trace s @ [ev]\<rparr>)"

definition random_randint_0_10 :: "world \<Rightarrow> client_state \<Rightarrow> nat \<times> client_state" where
  "random_randint_0_10 w s = (randint w (draws s) mod 11, s\<lparr>draws := draws s + 1\<rparr>)"

definition sleep :: "nat \<Rightarrow> client_state \<Rightarrow> client_state" where
  "sleep seconds s = s\<lparr>trace := trace s @ [Sleep seconds]\<rparr>"

definition sleep_half :: "client_state \<Rightarrow> client_state" where
  "sleep_half s = s\<lparr>trace := trace s @ [SleepHalf]\<rparr>"

text \<open>\<^verbatim>\<open>utils.rate_limit_wait\<close>: one second at a time.\<close>

definition rate_limit_wait :: "nat \<Rightarrow> client_state \<Rightarrow> client_state" where
  "rate_limit_wait seconds s = s\<lparr>trace := trace s @ replicate seconds (Sleep 1)\<rparr>"

subsection \<open>\<^verbatim>\<open>GitHubGraphQLClient.rotate_key\<close> and \<^verbatim>\<open>GitHubRESTClient.rotate_key\<close>\<close>

definition rotate_key :: "client_state \<Rightarrow> bool \<times> client_state" where
  "rotate_key s =
     (if length (api_keys s) \<le> 1 then (False, s)
      else (True, sleep 1
        (s\<lparr>current_key_index := (current_key_index s + 1) mod length (api_keys s)\<rparr>)))"

record rest_client_state =
  rest_api_keys :: "string list"
  rest_current_key_index :: nat

definition rest_rotate_key :: "rest_client_state \<Rightarrow> bool \<times> rest_client_state" where
  "rest_rotate_key s =
     (if length (rest_api_keys s) \<le> 1 then (False, s)
      else (True,
        s\<lparr>rest_current_key_index := (rest_current_key_index s + 1) mod length (rest_api_keys s)\<rparr>))"

subsection \<open>\<^verbatim>\<open>check_rate_limit\<close>\<close>

definition default_rate_limit :: json where
  "default_rate_limit = JObj [(''remaining'', JNum 0)]"

text \<open>The body of the \<^verbatim>\<open>if response.status_code == 200\<close> branch; the log line
  reads \<^verbatim>\<open>rate_limit['remaining']\<close> and \<^verbatim>\<open>rate_limit['limit']\<close> before the return.\<close>

definition rate_limit_of :: "json \<Rightarrow> py_exn + json option" where
  "rate_limit_of data =
     try_then (py_in ''data'' data) (\<lambda>has_data.
       if \<not> has_data then Inr None
       else try_then (py_getitem data ''data'') (\<lambda>d.
         try_then (py_in ''rateLimit'' d) (\<lambda>has_rl.
           if \<not> has_rl then Inr None
           else try_then (py_getitem d ''rateLimit'') (\<lambda>rate_limit.
             try_then (py_getitem rate_limit ''remaining'') (\<lambda>_.
               try_then (py_getitem rate_limit ''limit'') (\<lambda>_. Inr (Some rate_limit)))))))"

definition check_rate_limit :: "world \<Rightarrow> client_state \<Rightarrow> json \<times> client_state" where
  "check_rate_limit w s =
     (case current_key s of
        Inl e \<Rightarrow> (default_rate_limit, s)
      | Inr key \<Rightarrow>
          (case session_post w (RateLimitPost key) s of
             (Raises e, s1) \<Rightarrow> (default_rate_limit, s1)
           | (Response status body, s1) \<Rightarrow>
               if status = 200 then
                 (case body of
                    None \<Rightarrow> (default_rate_limit, s1)
                  | Some data \<Rightarrow>
                      (case rate_limit_of data of
                         Inr (Some rate_limit) \<Rightarrow> (rate_limit, s1)
                       | Inr None \<Rightarrow> (default_rate_limit, s1)
                       | Inl e \<Rightarrow> (default_rate_limit, s1)))
               else (default_rate_limit, s1)))"

subsection \<open>\<^verbatim>\<open>execute_query\<close>\<close>

text \<open>The three capped waits of the retry loop.\<close>

definition quota_wait :: "nat \<Rightarrow> nat" where
  "quota_wait retry_count = min 300 (2 ^ retry_count)"

definition server_wait :: "nat \<Rightarrow> nat \<Rightarrow> nat" where
  "server_wait retry_count jitter = min 60 (2 ^ retry_count + jitter)"

definition connection_wait :: "nat \<Rightarrow> nat" where
  "connection_wait retry_count = min 30 (2 ^ retry_count)"

text \<open>The rate-limit check at the head of the loop body.\<close>

datatype gate = Proceed | GateContinue nat | GateRaised py_exn

definition rate_gate :: "world \<Rightarrow> nat \<Rightarrow> client_state \<Rightarrow> gate \<times> client_state" where
  "rate_gate w retry_count s =
     (if retry_count = 0 then
        (case check_rate_limit w s of (rate_limit, s1) \<Rightarrow>
           (case try_then (py_get rate_limit ''remaining'' (JNum 0))
                   (\<lambda>remaining. py_less_int remaining RATE_LIMIT_THRESHOLD) of
              Inl e \<Rightarrow> (GateRaised e, s1)
            | Inr False \<Rightarrow> (Proceed, s1)
            | Inr True \<Rightarrow>
                (case rotate_key s1 of
                   (True, s2) \<Rightarrow> (Proceed, s2)
                 | (False, s2) \<Rightarrow>
                     (GateContinue (retry_count + 1),
                      rate_limit_wait (quota_wait retry_count) s2))))
      else (Proceed, s))"

definition has_forbidden :: "json \<Rightarrow> py_exn + bool" where
  "has_forbidden errors =
     try_then (py_iter errors)
       (py_any (\<lambda>err. try_then (py_get err ''type'' (JStr []))
          (\<lambda>t. Inr (sublist ''FORBIDDEN'' (py_str t)))))"

definition has_permission_error :: "json \<Rightarrow> py_exn + bool" where
  "has_permission_error errors =
     try_then (py_iter errors)
       (py_any (\<lambda>err. try_then (py_get err ''message'' (JStr []))
          (\<lambda>m. Inr (sublist ''permission'' (py_lower (py_str m))))))"

text \<open>How one pass through the \<^verbatim>\<open>try\<close> block ends: with a \<^verbatim>\<open>return\<close>, with the
  loop going round again under a new retry count, or with an exception.\<close>

datatype step = Returned "json option" | Continue nat | Raised py_exn

definition handle_ok :: "nat \<Rightarrow> json \<Rightarrow> client_state \<Rightarrow> step \<times> client_state" where
  "handle_ok retry_count data s =
     (case py_in ''errors'' data of
        Inl e \<Rightarrow> (Raised e, s)
      | Inr False \<Rightarrow> (Returned (Some data), s)
      | Inr True \<Rightarrow>
          (case py_getitem data ''errors'' of
             Inl e \<Rightarrow> (Raised e, s)
           | Inr errors \<Rightarrow>
               (let error_msg = py_str errors in
                case has_forbidden errors of
                  Inl e \<Rightarrow> (Raised e, s)
                | Inr forbidden \<Rightarrow>
                    (case has_permission_error errors of
                       Inl e \<Rightarrow> (Raised e, s)
                     | Inr permission \<Rightarrow>
                         if forbidden \<or> permission then
                           (case py_in ''data'' data of
                              Inl e \<Rightarrow> (Raised e, s)
                            | Inr True \<Rightarrow> (Returned (Some data), s)
                            | Inr False \<Rightarrow> (Returned None, s))
                         else if sublist ''rate limit'' (py_lower error_msg) then
                           (case rotate_key s of (_, s1) \<Rightarrow> (Continue (retry_count + 1), s1))
                         else if sublist ''timeout'' (py_lower error_msg) then
                           (Continue (retry_count + 1), sleep (2 ^ (retry_count + 1)) s)
                         else (Returned (Some data), s)))))"

definition handle_response ::
  "world \<Rightarrow> nat \<Rightarrow> int \<Rightarrow> json option \<Rightarrow> client_state \<Rightarrow> step \<times> client_state" where
  "handle_response w retry_count status body s =
     (if status = 200 then
        (case body of
           None \<Rightarrow> (Raised JSONDecodeError, s)
         | Some data \<Rightarrow> handle_ok retry_count data s)
      else if status = 401 then
        (case rotate_key s of
           (True, s1) \<Rightarrow> (Continue (retry_count + 1), s1)
         | (False, s1) \<Rightarrow> (Returned None, s1))
      else if status = 403 then
        (case rotate_key s of
           (True, s1) \<Rightarrow> (Continue (retry_count + 1), s1)
         | (False, s1) \<Rightarrow>
             (Continue (retry_count + 1), rate_limit_wait (quota_wait retry_count) s1))
      else if status \<ge> 500 then
        (case random_randint_0_10 w s of (jitter, s1) \<Rightarrow>
           (Continue (retry_count + 1), sleep (server_wait retry_count jitter) s1))
      else (Continue (retry_count + 1), sleep (2 ^ (retry_count + 1)) s))"

definition payload_of :: "string \<Rightarrow> (string \<times> json) list option \<Rightarrow> (string \<times> json) list" where
  "payload_of query variables =
     (''query'', JStr query) #
     (case variables of
        Some (v # vs) \<Rightarrow> [(''variables'', JObj (v # vs))]
      | _ \<Rightarrow> [])"

definition try_body ::
  "world \<Rightarrow> string \<Rightarrow> (string \<times> json) list option \<Rightarrow> nat \<Rightarrow> client_state
    \<Rightarrow> step \<times> client_state" where
  "try_body w query variables retry_count s =
     (case rate_gate w retry_count s of
        (GateRaised e, s1) \<Rightarrow> (Raised e, s1)
      | (GateContinue retry_count', s1) \<Rightarrow> (Continue retry_count', s1)
      | (Proceed, s1) \<Rightarrow>
          (case current_key s1 of
             Inl e \<Rightarrow> (Raised e, s1)
           | Inr key \<Rightarrow>
               (case session_post w (DataPost key (payload_of query variables)) s1 of
                  (Raises e, s2) \<Rightarrow> (Raised e, s2)
                | (Response status body, s2) \<Rightarrow> handle_response w retry_count status body s2)))"

text \<open>One iteration of the \<^verbatim>\<open>while\<close> loop: the \<^verbatim>\<open>try\<close> block and its three
  handlers.\<close>

datatype iteration = Return "json option" | Retry nat

definition attempt ::
  "world \<Rightarrow> string \<Rightarrow> (string \<times> json) list option \<Rightarrow> nat \<Rightarrow> client_state
    \<Rightarrow> iteration \<times> client_state" where
  "attempt w query variables retry_count s =
     (case try_body w query variables retry_count s of
        (Returned r, s1) \<Rightarrow> (Return r, s1)
      | (Continue retry_count', s1) \<Rightarrow> (Retry retry_count', s1)
      | (Raised e, s1) \<Rightarrow>
          if e = RequestsTimeout then
            (Retry (retry_count + 1), sleep (connection_wait retry_count) s1)
          else if e = RequestsConnectionError then
            (Retry (retry_count + 1), sleep (connection_wait retry_count) s1)
          else (Retry (retry_count + 1), sleep (2 ^ (retry_count + 1)) s1))"

lemma rate_gate_continue:
  "rate_gate w retry_count s = (GateContinue r, s') \<Longrightarrow> r = retry_count + 1"
  by (auto simp: rate_gate_def split: if_splits prod.splits sum.splits bool.splits)

lemma handle_ok_continue:
  "handle_ok retry_count data s = (Continue r, s') \<Longrightarrow> r = retry_count + 1"
  by (auto simp: handle_ok_def Let_def split: if_splits prod.splits sum.splits bool.splits)

lemma handle_response_continue:
  "handle_response w retry_count status body s = (Continue r, s') \<Longrightarrow> r = retry_count + 1"
  by (auto simp: handle_response_def dest: handle_ok_continue
      split: if_splits prod.splits option.splits bool.splits)

lemma try_body_continue:
  "try_body w query variables retry_count s = (Continue r, s') \<Longrightarrow> r = retry_count + 1"
  by (auto simp: try_body_def dest: rate_gate_continue handle_response_continue
      split: prod.splits gate.splits sum.splits net_outcome.splits)

lemma attempt_retry:
  "attempt w query variables retry_count s = (Retry r, s') \<Longrightarrow> r = retry_count + 1"
  by (auto simp: attempt_def dest: try_body_continue split: prod.splits step.splits if_splits)

text \<open>The \<^verbatim>\<open>while retry_count < max_retries\<close> loop, and the \<^verbatim>\<open>return None\<close> after it.\<close>

function execute_loop ::
  "world \<Rightarrow> string \<Rightarrow> (string \<times> json) list option \<Rightarrow> int \<Rightarrow> nat \<Rightarrow> client_state
    \<Rightarrow> json option \<times> client_state" where
  "execute_loop w query variables max_retries retry_count s =
     (if int retry_count < max_retries then
        (case attempt w query variables retry_count s of
           (Return r, s1) \<Rightarrow> (r, s1)
         | (Retry retry_count', s1) \<Rightarrow> execute_loop w query variables max_retries retry_count' s1)
      else (None, s))"
  by pat_completeness auto
termination
proof (relation "measure (\<lambda>(w, query, variables, max_retries, retry_count, s).
    nat (max_retries - int retry_count))")
  show "wf (measure (\<lambda>(w, query, variables, max_retries, retry_count, s).
    nat (max_retries - int retry_count)))"
    by simp
next
  fix w :: world and query variables max_retries retry_count and s :: client_state
    and x y r
  assume "int retry_count < max_retries" "(x, y) = attempt w query variables retry_count s"
    "x = Retry r"
  then have "r = retry_count + 1"
    using attempt_retry [of w query variables retry_count s r y] by simp
  with \<open>int retry_count < max_retries\<close>
  show "((w, query, variables, max_retries, r, y), (w, query, variables, max_retries, retry_count, s))
    \<in> measure (\<lambda>(w, query, variables, max_retries, retry_count, s).
        nat (max_retries - int retry_count))"
    by simp
qed

declare execute_loop.simps [simp del]

definition execute_query ::
  "world \<Rightarrow> string \<Rightarrow> (string \<times> json) list option \<Rightarrow> int \<Rightarrow> client_state
    \<Rightarrow> json option \<times> client_state" where
  "execute_query w query variables max_retries s = execute_loop w query variables max_retries 0 s"

subsection \<open>\<^verbatim>\<open>paginate_query\<close>\<close>

record pager_state =
  variables :: "(string \<times> json) list"
  all_results :: "json list"
  has_next :: bool
  cursor :: json
  page_count :: nat
  consecutive_failures :: nat
  client :: client_state

definition max_consecutive_failures :: nat where
  "max_consecutive_failures = 3"

text \<open>What \<^verbatim>\<open>paginate_query\<close> leaves behind: the list it returns or the exception it
  raises, the caller's \<^verbatim>\<open>variables\<close> dictionary and the client.\<close>

type_synonym paginate_outcome = "(py_exn + json list) \<times> (string \<times> json) list \<times> client_state"

datatype pager_step = Stop paginate_outcome | Next pager_state

text \<open>The \<^verbatim>\<open>for key in page_info_path\<close> loop: the flag is \<^verbatim>\<open>has_next\<close>.\<close>

fun navigate :: "string list \<Rightarrow> json \<Rightarrow> py_exn + bool \<times> json" where
  "navigate [] page_info_data = Inr (True, page_info_data)"
| "navigate (key # keys) page_info_data =
     (case py_in key page_info_data of
        Inl e \<Rightarrow> Inl e
      | Inr False \<Rightarrow> Inr (False, page_info_data)
      | Inr True \<Rightarrow>
          (case py_getitem page_info_data key of
             Inl e \<Rightarrow> Inl e
           | Inr v \<Rightarrow> navigate keys v))"

text \<open>The \<^verbatim>\<open>if has_next and 'pageInfo' in page_info_data\<close> statement: the new
  \<^verbatim>\<open>has_next\<close> (as its truth value) and the new \<^verbatim>\<open>cursor\<close>.\<close>

definition read_page_info :: "bool \<Rightarrow> json \<Rightarrow> json \<Rightarrow> py_exn + bool \<times> json" where
  "read_page_info has_next_now page_info_data cursor_now =
     (if has_next_now then
        try_then (py_in ''pageInfo'' page_info_data) (\<lambda>present.
          if present then
            try_then (py_getitem page_info_data ''pageInfo'') (\<lambda>page_info.
              try_then (py_get page_info ''hasNextPage'' (JBool False)) (\<lambda>h.
                try_then (py_get page_info ''endCursor'' JNull) (\<lambda>c.
                  Inr (py_truthy h, c))))
          else Inr (False, cursor_now))
      else Inr (False, cursor_now))"

definition on_failure ::
  "pager_state \<Rightarrow> (string \<times> json) list \<Rightarrow> client_state \<Rightarrow> pager_step" where
  "on_failure p vars s =
     (let failures = consecutive_failures p + 1 in
      if failures \<ge> max_consecutive_failures then Stop (Inr (all_results p), vars, s)
      else Next (p\<lparr>variables := vars, consecutive_failures := failures,
                   client := sleep (2 ^ failures) s\<rparr>))"

definition on_success ::
  "string list \<Rightarrow> pager_state \<Rightarrow> (string \<times> json) list \<Rightarrow> json \<Rightarrow> client_state \<Rightarrow> pager_step" where
  "on_success page_info_path p vars result s =
     (case try_then (py_getitem result ''data'') (navigate page_info_path) of
        Inl e \<Rightarrow> Stop (Inl e, vars, s)
      | Inr (has_next_now, page_info_data) \<Rightarrow>
          (case read_page_info has_next_now page_info_data (cursor p) of
             Inl e \<Rightarrow> Stop (Inl e, vars, s)
           | Inr (has_next', cursor') \<Rightarrow>
               Next (p\<lparr>variables := vars, all_results := all_results p @ [result],
                       has_next := has_next', cursor := cursor',
                       page_count := page_count p + 1, consecutive_failures := 0,
                       client := sleep_half s\<rparr>)))"

text \<open>\<^verbatim>\<open>if cursor: variables['after'] = cursor\<close>: the dictionary after the
  statement. It is the caller's dictionary, updated in place.\<close>

definition request_variables :: "pager_state \<Rightarrow> (string \<times> json) list" where
  "request_variables p =
     (if py_truthy (cursor p) then AList.update ''after'' (cursor p) (variables p)
      else variables p)"

text \<open>The \<^verbatim>\<open>while\<close> condition.\<close>

definition keeps_going :: "int option \<Rightarrow> pager_state \<Rightarrow> bool" where
  "keeps_going max_pages p =
     (has_next p \<and> (case max_pages of None \<Rightarrow> True | Some m \<Rightarrow> int (page_count p) < m))"

text \<open>One test of the \<^verbatim>\<open>while\<close> condition and, when it holds, one pass through the
  body.\<close>

definition paginate_step ::
  "world \<Rightarrow> string \<Rightarrow> string list \<Rightarrow> int option \<Rightarrow> pager_state \<Rightarrow> pager_step" where
  "paginate_step w query_template page_info_path max_pages p =
     (if keeps_going max_pages p then
        (let vars = request_variables p
         in case execute_query w query_template (Some vars) 5 (client p) of
           (None, s) \<Rightarrow> on_failure p vars s
         | (Some result, s) \<Rightarrow>
             if \<not> py_truthy result then on_failure p vars s
             else
               (case py_in ''data'' result of
                  Inl e \<Rightarrow> Stop (Inl e, vars, s)
                | Inr False \<Rightarrow> on_failure p vars s
                | Inr True \<Rightarrow> on_success page_info_path p vars result s))
      else Stop (Inr (all_results p), variables p, client p))"

partial_function (option) paginate_loop ::
  "world \<Rightarrow> string \<Rightarrow> string list \<Rightarrow> int option \<Rightarrow> pager_state \<Rightarrow> paginate_outcome option" where
  "paginate_loop w query_template page_info_path max_pages p =
     (case paginate_step w query_template page_info_path max_pages p of
        Stop out \<Rightarrow> Some out
      | Next p' \<Rightarrow> paginate_loop w query_template page_info_path max_pages p')"

definition paginate_query ::
  "world \<Rightarrow> string \<Rightarrow> (string \<times> json) list \<Rightarrow> string list \<Rightarrow> int option \<Rightarrow> client_state
    \<Rightarrow> paginate_outcome option" where
  "paginate_query w query_template vars page_info_path max_pages s =
     paginate_loop w query_template page_info_path max_pages
       \<lparr>variables = vars, all_results = [], has_next = True, cursor = JNull,
        page_count = 0, consecutive_failures = 0, client = s\<rparr>"

subsection \<open>Repeated rotation\<close>

definition rotate_times :: "nat \<Rightarrow> client_state \<Rightarrow> client_state" where
  "rotate_times n = (\<lambda>s. snd (rotate_key s)) ^^ n"

definition rest_rotate_times :: "nat \<Rightarrow> rest_client_state \<Rightarrow> rest_client_state" where
  "rest_rotate_times n = (\<lambda>s. snd (rest_rotate_key s)) ^^ n"

subsection \<open>The error classes as the specification words them\<close>

definition is_object :: "json \<Rightarrow> bool" where
  "is_object v = (case v of JObj kvs \<Rightarrow> True | _ \<Rightarrow> False)"

text \<open>An authorization or visibility marker: an error object whose \<^verbatim>\<open>type\<close> is a
  string containing \<^verbatim>\<open>FORBIDDEN\<close> or whose \<^verbatim>\<open>message\<close> is a string containing
  \<^verbatim>\<open>permission\<close>.\<close>

definition authorization_marker :: "json \<Rightarrow> bool" where
  "authorization_marker err =
     (case err of
        JObj kvs \<Rightarrow>
          (case map_of kvs ''type'' of Some (JStr t) \<Rightarrow> sublist ''FORBIDDEN'' t | _ \<Rightarrow> False)
          \<or> (case map_of kvs ''message'' of Some (JStr m) \<Rightarrow> sublist ''permission'' m | _ \<Rightarrow> False)
      | _ \<Rightarrow> False)"

subsection \<open>Counting rate-limit checks in a trace\<close>

definition is_rate_check :: "event \<Rightarrow> bool" where
  "is_rate_check ev = (case ev of RateLimitPost key \<Rightarrow> True | _ \<Rightarrow> False)"

definition rate_checks :: "event list \<Rightarrow> nat" where
  "rate_checks evs = length (filter is_rate_check evs)"

text \<open>The client moved from one state to another without a rate-limit check.\<close>

definition quiet :: "client_state \<Rightarrow> client_state \<Rightarrow> bool" where
  "quiet s s' = (\<exists>evs. trace s' = trace s @ evs \<and> rate_checks evs = 0)"

text \<open>A fetch without a usable result: no result, a falsy one, or one without
  \<^verbatim>\<open>data\<close>.\<close>

definition no_usable_result :: "json option \<Rightarrow> bool" where
  "no_usable_result result =
     (case result of
        None \<Rightarrow> True
      | Some v \<Rightarrow> \<not> py_truthy v \<or> py_in ''data'' v = Inr False)"

subsection \<open>The fetches of a pagination run, in order\<close>

definition initial_pager :: "(string \<times> json) list \<Rightarrow> client_state \<Rightarrow> pager_state" where
  "initial_pager vars s =
     \<lparr>variables = vars, all_results = [], has_next = True, cursor = JNull,
      page_count = 0, consecutive_failures = 0, client = s\<rparr>"

text \<open>What \<^verbatim>\<open>execute_query\<close> returns in the iteration that starts in a given state.\<close>

definition fetched :: "world \<Rightarrow> string \<Rightarrow> pager_state \<Rightarrow> json option" where
  "fetched w query p = fst (execute_query w query (Some (request_variables p)) 5 (client p))"

text \<open>The results of the first \<open>n\<close> fetches of the loop, in the order they are made; the
  list ends where the loop ends.\<close>

fun fetch_log ::
  "nat \<Rightarrow> world \<Rightarrow> string \<Rightarrow> string list \<Rightarrow> int option \<Rightarrow> pager_state \<Rightarrow> json option list" where
  "fetch_log 0 w query path max_pages p = []"
| "fetch_log (Suc n) w query path max_pages p =
     (if keeps_going max_pages p then
        fetched w query p #
        (case paginate_step w query path max_pages p of
           Stop out \<Rightarrow> []
         | Next p' \<Rightarrow> fetch_log n w query path max_pages p')
      else [])"

text \<open>The usable payloads among a list of fetch results, in the same order.\<close>

definition successful_pages :: "json option list \<Rightarrow> json list" where
  "successful_pages log = map the (filter (\<lambda>r. \<not> no_usable_result r) log)"

text \<open>What a finished run owes to the state it started from: its length is bounded by
  the pages left before the limit, and it is the pages already gathered followed by the
  usable results of the fetches made, in order.\<close>

definition run_from ::
  "world \<Rightarrow> string \<Rightarrow> string list \<Rightarrow> int \<Rightarrow> pager_state \<Rightarrow> paginate_outcome \<Rightarrow> bool" where
  "run_from w query path m p out =
     (\<forall>pages vars' s'. out = (Inr pages, vars', s') \<longrightarrow>
        int (length pages) \<le> int (length (all_results p)) + max 0 (m - int (page_count p))
        \<and> (\<exists>n. (\<forall>k\<ge>n. fetch_log k w query path (Some m) p = fetch_log n w query path (Some m) p)
             \<and> pages = all_results p @ successful_pages (fetch_log n w query path (Some m) p)))"

text \<open>The cursors with which the iterations of the loop start, in order; the list ends
  where the loop ends.\<close>

fun cursor_log ::
  "nat \<Rightarrow> world \<Rightarrow> string \<Rightarrow> string list \<Rightarrow> int option \<Rightarrow> pager_state \<Rightarrow> json list" where
  "cursor_log 0 w query path max_pages p = []"
| "cursor_log (Suc n) w query path max_pages p =
     (if keeps_going max_pages p then
        cursor p #
        (case paginate_step w query path max_pages p of
           Stop out \<Rightarrow> []
         | Next p' \<Rightarrow> cursor_log n w query path max_pages p')
      else [])"

text \<open>A dictionary after the cursors of a list have been written to it, one after the
  other, under \<^verbatim>\<open>after\<close>, the falsy ones skipped.\<close>

definition after_cursors :: "(string \<times> json) list \<Rightarrow> json list \<Rightarrow> (string \<times> json) list" where
  "after_cursors vars cursors =
     (case filter py_truthy cursors of
        [] \<Rightarrow> vars
      | c # cs \<Rightarrow> AList.update ''after'' (last (c # cs)) vars)"

section \<open>Example worlds\<close>

definition quota_ok_body :: json where
  "quota_ok_body =
     JObj [(''data'', JObj [(''rateLimit'',
       JObj [(''limit'', JNum 5000), (''cost'', JNum 1), (''remaining'', JNum 4999),
             (''resetAt'', JStr ''2026-01-01T00:00:00Z'')])])]"

definition one_key_client :: client_state where
  "one_key_client = \<lparr>api_keys = [''A''], current_key_index = 0, posts = 0, draws = 0, trace = []\<rparr>"


definition forbidden_body :: json where
  "forbidden_body =
     JObj [(''data'', JObj [(''repository'', JObj [(''name'', JStr ''r''), (''collaborators'', JNull)])]),
           (''errors'', JArr [JObj [(''type'', JStr ''FORBIDDEN''),
              (''message'', JStr ''Resource not accessible by integration'')]])]"

definition forbidden_world :: world where
  "forbidden_world =
     \<lparr>net = (\<lambda>k. if k = 0 then Response 200 (Some quota_ok_body)
                   else Response 200 (Some forbidden_body)),
      randint = (\<lambda>k. 0)\<rparr>"

definition permission_only_body :: json where
  "permission_only_body =
     JObj [(''errors'', JArr [JObj [(''type'', JStr ''INSUFFICIENT_SCOPES''),
              (''message'', JStr ''You do not have permission to view this'')]])]"

definition permission_only_world :: world where
  "permission_only_world =
     \<lparr>net = (\<lambda>k. if k = 0 then Response 200 (Some quota_ok_body)
                   else Response 200 (Some permission_only_body)),
      randint = (\<lambda>k. 0)\<rparr>"

definition not_found_body :: json where
  "not_found_body =
     JObj [(''data'', JObj [(''user'', JNull)]),
           (''errors'', JArr [JObj [(''type'', JStr ''NOT_FOUND''),
              (''message'', JStr ''Could not resolve to a User'')]])]"

definition not_found_world :: world where
  "not_found_world =
     \<lparr>net = (\<lambda>k. if k = 0 then Response 200 (Some quota_ok_body)
                   else Response 200 (Some not_found_body)),
      randint = (\<lambda>k. 0)\<rparr>"

definition two_key_client :: client_state where
  "two_key_client =
     \<lparr>api_keys = [''A'', ''B''], current_key_index = 0, posts = 0, draws = 0, trace = []\<rparr>"

definition low_quota_world :: world where
  "low_quota_world =
     \<lparr>net = (\<lambda>k. if k = 0
          then Response 200 (Some (JObj [(''data'', JObj [(''rateLimit'',
                 JObj [(''limit'', JNum 5000), (''remaining'', JNum 50)])])]))
          else Response 200 (Some (JObj [(''data'', JObj [])]))),
      randint = (\<lambda>k. 0)\<rparr>"

definition null_user_body :: json where
  "null_user_body = JObj [(''data'', JObj [(''user'', JNull)])]"

definition null_user_world :: world where
  "null_user_world =
     \<lparr>net = (\<lambda>k. if k = 0 then Response 200 (Some quota_ok_body)
                   else Response 200 (Some null_user_body)),
      randint = (\<lambda>k. 0)\<rparr>"


definition last_page_body :: json where
  "last_page_body =
     JObj [(''data'', JObj [(''user'', JObj [(''followers'',
       JObj [(''pageInfo'', JObj [(''hasNextPage'', JBool False), (''endCursor'', JStr ''X'')]),
             (''nodes'', JArr [])])])])]"

definition last_page_world :: world where
  "last_page_world =
     \<lparr>net = (\<lambda>k. if k = 0 then Response 200 (Some quota_ok_body)
                   else Response 200 (Some last_page_body)),
      randint = (\<lambda>k. 0)\<rparr>"

definition first_page_body :: json where
  "first_page_body =
     JObj [(''data'', JObj [(''user'', JObj [(''followers'',
       JObj [(''pageInfo'', JObj [(''hasNextPage'', JBool True), (''endCursor'', JStr ''X'')]),
             (''nodes'', JArr [JObj [(''login'', JStr ''a'')]])])])])]"

definition second_page_body :: json where
  "second_page_body =
     JObj [(''data'', JObj [(''user'', JObj [(''followers'',
       JObj [(''pageInfo'', JObj [(''hasNextPage'', JBool False), (''endCursor'', JStr ''Y'')]),
             (''nodes'', JArr [JObj [(''login'', JStr ''b'')]])])])])]"

definition two_page_world :: world where
  "two_page_world =
     \<lparr>net = (\<lambda>k. if k = 1 then Response 200 (Some first_page_body)
                   else if k = 3 then Response 200 (Some second_page_body)
                   else Response 200 (Some quota_ok_body)),
      randint = (\<lambda>k. 0)\<rparr>"





section \<open>Key rotation\<close>

lemma rotate_times_index:
  "api_keys (rotate_times k s) = api_keys s \<and>
   current_key_index (rotate_times k s) =
     (if length (api_keys s) \<le> 1 then current_key_index s
      else if k = 0 then current_key_index s
      else (current_key_index s + k) mod length (api_keys s))"
proof (induction k)
  case 0
  show ?case by (simp add: rotate_times_def)
next
  case (Suc k)
  have step: "rotate_times (Suc k) s = snd (rotate_key (rotate_times k s))"
    by (simp add: rotate_times_def)
  show ?case
  proof (cases "length (api_keys s) \<le> 1")
    case True
    with Suc show ?thesis by (simp add: step rotate_key_def)
  next
    case False
    with Suc show ?thesis
      by (simp add: step rotate_key_def sleep_def mod_Suc_eq)
  qed
qed

lemma rest_rotate_times_index:
  "rest_api_keys (rest_rotate_times k s) = rest_api_keys s \<and>
   rest_current_key_index (rest_rotate_times k s) =
     (if length (rest_api_keys s) \<le> 1 then rest_current_key_index s
      else if k = 0 then rest_current_key_index s
      else (rest_current_key_index s + k) mod length (rest_api_keys s))"
proof (induction k)
  case 0
  show ?case by (simp add: rest_rotate_times_def)
next
  case (Suc k)
  have step: "rest_rotate_times (Suc k) s = snd (rest_rotate_key (rest_rotate_times k s))"
    by (simp add: rest_rotate_times_def)
  show ?case
  proof (cases "length (rest_api_keys s) \<le> 1")
    case True
    with Suc show ?thesis by (simp add: step rest_rotate_key_def)
  next
    case False
    with Suc show ?thesis
      by (simp add: step rest_rotate_key_def mod_Suc_eq)
  qed
qed

text \<open>
  Claim C4. For a pool of \<open>N \<ge> 1\<close> keys and a valid active index, \<open>N\<close> calls of
  \<^verbatim>\<open>rotate_key\<close> bring back the original active credential, the index stays below
  \<open>N\<close> after any number of calls, and with a single key the call returns false and changes
  nothing. The same holds for the REST client.
\<close>

theorem rotate_key_circular:
  assumes "api_keys s \<noteq> []" and "current_key_index s < length (api_keys s)"
    and "rest_api_keys r \<noteq> []" and "rest_current_key_index r < length (rest_api_keys r)"
  shows "(current_key (rotate_times (length (api_keys s)) s) = current_key s
      \<and> current_key_index (rotate_times (length (api_keys s)) s) = current_key_index s
      \<and> (\<forall>k. current_key_index (rotate_times k s) < length (api_keys (rotate_times k s)))
      \<and> (length (api_keys s) = 1 \<longrightarrow> rotate_key s = (False, s)))
    \<and> (rest_current_key_index (rest_rotate_times (length (rest_api_keys r)) r)
          = rest_current_key_index r
      \<and> rest_api_keys (rest_rotate_times (length (rest_api_keys r)) r) = rest_api_keys r
      \<and> (\<forall>k. rest_current_key_index (rest_rotate_times k r)
            < length (rest_api_keys (rest_rotate_times k r)))
      \<and> (length (rest_api_keys r) = 1 \<longrightarrow> rest_rotate_key r = (False, r)))"
proof -
  let ?N = "length (api_keys s)" and ?M = "length (rest_api_keys r)"
  have N: "0 < ?N" and M: "0 < ?M" using assms by simp_all
  have idx: "current_key_index (rotate_times ?N s) = current_key_index s"
    using assms(2) N by (simp add: rotate_times_index)
  have keys: "api_keys (rotate_times ?N s) = api_keys s"
    by (simp add: rotate_times_index)
  have cur: "current_key (rotate_times ?N s) = current_key s"
    by (simp add: current_key_def idx keys)
  have rng: "\<forall>k. current_key_index (rotate_times k s) < length (api_keys (rotate_times k s))"
    using assms(2) N by (simp add: rotate_times_index)
  have one: "?N = 1 \<longrightarrow> rotate_key s = (False, s)"
    by (simp add: rotate_key_def)
  have ridx: "rest_current_key_index (rest_rotate_times ?M r) = rest_current_key_index r"
    using assms(4) M by (simp add: rest_rotate_times_index)
  have rkeys: "rest_api_keys (rest_rotate_times ?M r) = rest_api_keys r"
    by (simp add: rest_rotate_times_index)
  have rrng: "\<forall>k. rest_current_key_index (rest_rotate_times k r)
      < length (rest_api_keys (rest_rotate_times k r))"
    using assms(4) M by (simp add: rest_rotate_times_index)
  have rone: "?M = 1 \<longrightarrow> rest_rotate_key r = (False, r)"
    by (simp add: rest_rotate_key_def)
  from cur idx rng one ridx rkeys rrng rone show ?thesis by blast
qed

theorem rotate_key_circular_witness:
  "current_key (rotate_times 3
      \<lparr>api_keys = [''A'', ''B'', ''C''], current_key_index = 1, posts = 0, draws = 0, trace = []\<rparr>)
     = Inr ''B''
   \<and> rest_rotate_key \<lparr>rest_api_keys = [''A''], rest_current_key_index = 0\<rparr>
     = (False, \<lparr>rest_api_keys = [''A''], rest_current_key_index = 0\<rparr>)
   \<and> rest_current_key_index (rest_rotate_times 3
      \<lparr>rest_api_keys = [''A'', ''B'', ''C''], rest_current_key_index = 2\<rparr>) = 2
   \<and> rotate_key \<lparr>api_keys = [''A''], current_key_index = 0, posts = 0, draws = 0, trace = []\<rparr>
     = (False, \<lparr>api_keys = [''A''], current_key_index = 0, posts = 0, draws = 0, trace = []\<rparr>)"
proof -
  let ?s = "\<lparr>api_keys = [''A'', ''B'', ''C''], current_key_index = 1, posts = 0, draws = 0,
            trace = []\<rparr>"
  let ?r = "\<lparr>rest_api_keys = [''A''], rest_current_key_index = 0\<rparr>"
  have h: "api_keys ?s \<noteq> []" "current_key_index ?s < length (api_keys ?s)"
    "rest_api_keys ?r \<noteq> []" "rest_current_key_index ?r < length (rest_api_keys ?r)"
    by simp_all
  have a: "current_key (rotate_times (length (api_keys ?s)) ?s) = current_key ?s"
    and b: "length (rest_api_keys ?r) = 1 \<longrightarrow> rest_rotate_key ?r = (False, ?r)"
    using rotate_key_circular [OF h] by blast+
  have l: "length (api_keys ?s) = 3"
    by simp
  have c: "current_key ?s = Inr ''B''"
    by (simp add: current_key_def)
  let ?s1 = "\<lparr>api_keys = [''A''], current_key_index = 0, posts = 0, draws = 0, trace = []\<rparr>"
  let ?r3 = "\<lparr>rest_api_keys = [''A'', ''B'', ''C''], rest_current_key_index = 2\<rparr>"
  have h': "api_keys ?s1 \<noteq> []" "current_key_index ?s1 < length (api_keys ?s1)"
    "rest_api_keys ?r3 \<noteq> []" "rest_current_key_index ?r3 < length (rest_api_keys ?r3)"
    by simp_all
  have a': "rest_current_key_index (rest_rotate_times (length (rest_api_keys ?r3)) ?r3)
      = rest_current_key_index ?r3"
    and b': "length (api_keys ?s1) = 1 \<longrightarrow> rotate_key ?s1 = (False, ?s1)"
    using rotate_key_circular [OF h'] by blast+
  have l': "length (rest_api_keys ?r3) = 3"
    by simp
  from a' have d: "rest_current_key_index (rest_rotate_times 3 ?r3) = 2"
    unfolding l' by simp
  from a b b' d show ?thesis
    unfolding l c by simp
qed

section \<open>Backoff waits\<close>



section \<open>Classification of a 200 response\<close>

lemma py_any_total:
  "\<forall>x\<in>set xs. \<exists>b. f x = Inr b \<Longrightarrow> py_any f xs = Inr (\<exists>x\<in>set xs. f x = Inr True)"
  by (induction xs) (auto split: sum.splits bool.splits)

lemma py_lower_permission: "py_lower ''permission'' = ''permission''"
  by (simp add: py_lower_def lower_char_def)

lemma sublist_permission_lower:
  "sublist ''permission'' m \<Longrightarrow> sublist ''permission'' (py_lower m)"
  using map_mono_sublist [of "''permission''" m lower_char] py_lower_permission
  by (simp add: py_lower_def)

lemma is_object_iff: "is_object e \<longleftrightarrow> (\<exists>kvs. e = JObj kvs)"
  by (cases e) (simp_all add: is_object_def)

lemma field_test_object:
  "try_then (py_get (JObj kvs) k d) (\<lambda>t. Inr (P t)) =
     Inr (P (case map_of kvs k of None \<Rightarrow> d | Some v \<Rightarrow> v))"
  by (simp add: try_then_def split: option.splits)

lemma has_forbidden_objects:
  assumes "\<forall>e\<in>set errs. is_object e"
  shows "has_forbidden (JArr errs) =
    Inr (\<exists>e\<in>set errs. try_then (py_get e ''type'' (JStr []))
          (\<lambda>t. Inr (sublist ''FORBIDDEN'' (py_str t))) = Inr True)"
proof -
  have "\<forall>e\<in>set errs. \<exists>b. try_then (py_get e ''type'' (JStr []))
          (\<lambda>t. Inr (sublist ''FORBIDDEN'' (py_str t))) = Inr b"
    using assms field_test_object by (metis is_object_iff)
  then show ?thesis
    by (simp add: has_forbidden_def try_then_def py_any_total)
qed

lemma has_permission_error_objects:
  assumes "\<forall>e\<in>set errs. is_object e"
  shows "has_permission_error (JArr errs) =
    Inr (\<exists>e\<in>set errs. try_then (py_get e ''message'' (JStr []))
          (\<lambda>m. Inr (sublist ''permission'' (py_lower (py_str m)))) = Inr True)"
proof -
  have "\<forall>e\<in>set errs. \<exists>b. try_then (py_get e ''message'' (JStr []))
          (\<lambda>m. Inr (sublist ''permission'' (py_lower (py_str m)))) = Inr b"
    using assms field_test_object by (metis is_object_iff)
  then show ?thesis
    by (simp add: has_permission_error_def try_then_def py_any_total)
qed

lemma marker_is_detected:
  assumes "authorization_marker e"
  shows "try_then (py_get e ''type'' (JStr []))
           (\<lambda>t. Inr (sublist ''FORBIDDEN'' (py_str t))) = Inr True
       \<or> try_then (py_get e ''message'' (JStr []))
           (\<lambda>m. Inr (sublist ''permission'' (py_lower (py_str m)))) = Inr True"
proof -
  from assms obtain kvs where e: "e = JObj kvs"
    by (cases e) (simp_all add: authorization_marker_def)
  from assms e consider
      t where "map_of kvs ''type'' = Some (JStr t)" "sublist ''FORBIDDEN'' t"
    | m where "map_of kvs ''message'' = Some (JStr m)" "sublist ''permission'' m"
    by (auto simp: authorization_marker_def split: option.splits json.splits)
  then show ?thesis
  proof cases
    case 1
    then show ?thesis by (simp add: e try_then_def)
  next
    case 2
    then show ?thesis by (simp add: e try_then_def sublist_permission_lower)
  qed
qed

lemma markers_found:
  assumes "\<forall>e\<in>set errs. is_object e" and "\<exists>e\<in>set errs. authorization_marker e"
  shows "\<exists>f p. has_forbidden (JArr errs) = Inr f \<and> has_permission_error (JArr errs) = Inr p
    \<and> (f \<or> p)"
proof -
  from assms(2) obtain e where e: "e \<in> set errs" "authorization_marker e"
    by blast
  from marker_is_detected [OF e(2)] e(1) show ?thesis
    unfolding has_forbidden_objects [OF assms(1)] has_permission_error_objects [OF assms(1)]
    by blast
qed

lemma handle_ok_markers:
  assumes "map_of body ''errors'' = Some (JArr errs)"
    and "\<forall>e\<in>set errs. is_object e" and "\<exists>e\<in>set errs. authorization_marker e"
  shows "handle_ok retry_count (JObj body) s =
    (Returned (if map_of body ''data'' = None then None else Some (JObj body)), s)"
proof -
  from markers_found [OF assms(2,3)] obtain f p where fp:
    "has_forbidden (JArr errs) = Inr f" "has_permission_error (JArr errs) = Inr p" "f \<or> p"
    by blast
  have dom: "(''data'' \<in> fst ` set body) = (map_of body ''data'' \<noteq> None)"
    by (simp add: map_of_eq_None_iff)
  have "''errors'' \<in> fst ` set body"
    using assms(1) by (metis map_of_eq_None_iff option.distinct(1))
  with assms(1) fp dom show ?thesis
    by (auto simp: handle_ok_def)
qed

text \<open>An attempt that reaches the data call and is answered with status 200.\<close>

lemma attempt_ok_response:
  assumes "rate_gate w retry_count s = (Proceed, s1)"
    and "current_key s1 = Inr key"
    and "net w (posts s1) = Response 200 (Some data)"
  shows "try_body w query vars retry_count s =
    handle_ok retry_count data
      (s1\<lparr>posts := posts s1 + 1, trace := trace s1 @ [DataPost key (payload_of query vars)]\<rparr>)"
  using assms by (simp add: try_body_def session_post_def handle_response_def)

lemma execute_loop_returned:
  assumes "int retry_count < max_retries"
    and "try_body w query vars retry_count s = (Returned r, s')"
  shows "execute_loop w query vars max_retries retry_count s = (r, s')"
  using assms by (subst execute_loop.simps) (simp add: attempt_def)

text \<open>
  Claim C1. An attempt (the first or a retry) that reaches the data call and is answered
  with status 200 and a body holding \<^verbatim>\<open>data\<close> and an \<^verbatim>\<open>errors\<close> array of error
  objects, one of them an authorization marker, makes \<^verbatim>\<open>execute_query\<close> return that
  body as it is. The client is left as the data call left it: the retry count was not
  touched, nothing was slept, no key was rotated and no further request was sent.
\<close>

theorem partial_data_returned_without_retry:
  assumes "int retry_count < max_retries"
    and "rate_gate w retry_count s = (Proceed, s1)"
    and "current_key s1 = Inr key"
    and "net w (posts s1) = Response 200 (Some (JObj body))"
    and "map_of body ''data'' = Some d"
    and "map_of body ''errors'' = Some (JArr errs)"
    and "\<forall>e\<in>set errs. is_object e"
    and "\<exists>e\<in>set errs. authorization_marker e"
  shows "execute_loop w query vars max_retries retry_count s =
    (Some (JObj body),
     s1\<lparr>posts := posts s1 + 1, trace := trace s1 @ [DataPost key (payload_of query vars)]\<rparr>)"
proof -
  let ?s2 = "s1\<lparr>posts := posts s1 + 1, trace := trace s1 @ [DataPost key (payload_of query vars)]\<rparr>"
  have "try_body w query vars retry_count s = handle_ok retry_count (JObj body) ?s2"
    using assms(2,3,4) by (rule attempt_ok_response)
  also have "\<dots> = (Returned (Some (JObj body)), ?s2)"
    using handle_ok_markers [OF assms(6,7,8), of retry_count ?s2] assms(5) by simp
  finally show ?thesis
    using assms(1) by (rule execute_loop_returned [rotated])
qed

theorem partial_data_returned_without_retry_witness:
  "execute_query forbidden_world ''q'' None 5 one_key_client =
     (Some forbidden_body,
      \<lparr>api_keys = [''A''], current_key_index = 0, posts = 2, draws = 0,
       trace = [RateLimitPost ''A'', DataPost ''A'' [(''query'', JStr ''q'')]]\<rparr>)"
proof -
  let ?s1 = "\<lparr>api_keys = [''A''], current_key_index = 0, posts = 1, draws = 0,
    trace = [RateLimitPost ''A'']\<rparr>"
  let ?errs = "[JObj [(''type'', JStr ''FORBIDDEN''),
    (''message'', JStr ''Resource not accessible by integration'')]]"
  let ?d = "JObj [(''repository'', JObj [(''name'', JStr ''r''), (''collaborators'', JNull)])]"
  let ?body = "[(''data'', ?d), (''errors'', JArr ?errs)]"
  have r: "int 0 < 5"
    by simp
  have g: "rate_gate forbidden_world 0 one_key_client = (Proceed, ?s1)"
    by (simp add: rate_gate_def check_rate_limit_def current_key_def session_post_def
        one_key_client_def forbidden_world_def quota_ok_body_def rate_limit_of_def try_then_def
        RATE_LIMIT_THRESHOLD_def)
  have k: "current_key ?s1 = Inr ''A''"
    by (simp add: current_key_def)
  have n: "net forbidden_world (posts ?s1) = Response 200 (Some (JObj ?body))"
    by (simp add: forbidden_world_def forbidden_body_def)
  have d: "map_of ?body ''data'' = Some ?d" and e: "map_of ?body ''errors'' = Some (JArr ?errs)"
    by simp_all
  have o: "\<forall>e\<in>set ?errs. is_object e" and m: "\<exists>e\<in>set ?errs. authorization_marker e"
    by (simp_all add: is_object_def authorization_marker_def)
  show ?thesis
    using partial_data_returned_without_retry [OF r g k n d e o m, of "''q''" None]
    by (simp add: execute_query_def forbidden_body_def payload_of_def)
qed

text \<open>
  Claim C2. An attempt that reaches the data call and is answered with status 200 and a
  body that has no \<^verbatim>\<open>data\<close> and whose \<^verbatim>\<open>errors\<close> array holds authorization markers
  only makes \<^verbatim>\<open>execute_query\<close> return \<^verbatim>\<open>None\<close>, the client left as the data call
  left it (no retry consumed). A response without \<^verbatim>\<open>errors\<close>, however empty, is
  returned as itself, so \<^verbatim>\<open>None\<close> is never a successful result.
\<close>

theorem marker_only_response_yields_none:
  assumes "int retry_count < max_retries"
    and "rate_gate w retry_count s = (Proceed, s1)"
    and "current_key s1 = Inr key"
    and "net w (posts s1) = Response 200 (Some (JObj body))"
    and "map_of body ''data'' = None"
    and "map_of body ''errors'' = Some (JArr errs)"
    and "errs \<noteq> []"
    and "\<forall>e\<in>set errs. authorization_marker e"
  shows "execute_loop w query vars max_retries retry_count s =
      (None,
       s1\<lparr>posts := posts s1 + 1, trace := trace s1 @ [DataPost key (payload_of query vars)]\<rparr>)
    \<and> (\<forall>body' s'. map_of body' ''errors'' = None \<longrightarrow>
          handle_response w retry_count 200 (Some (JObj body')) s'
            = (Returned (Some (JObj body')), s'))"
proof -
  let ?s2 = "s1\<lparr>posts := posts s1 + 1, trace := trace s1 @ [DataPost key (payload_of query vars)]\<rparr>"
  have objs: "\<forall>e\<in>set errs. is_object e"
    using assms(8) by (auto simp: authorization_marker_def is_object_def split: json.splits)
  have some: "\<exists>e\<in>set errs. authorization_marker e"
    using assms(7,8) by (cases errs) simp_all
  have "try_body w query vars retry_count s = handle_ok retry_count (JObj body) ?s2"
    using assms(2,3,4) by (rule attempt_ok_response)
  also have "\<dots> = (Returned None, ?s2)"
    using handle_ok_markers [OF assms(6) objs some, of retry_count ?s2] assms(5) by simp
  finally have "execute_loop w query vars max_retries retry_count s = (None, ?s2)"
    using assms(1) by (rule execute_loop_returned [rotated])
  moreover have "\<forall>body' s'. map_of body' ''errors'' = None \<longrightarrow>
      handle_response w retry_count 200 (Some (JObj body')) s'
        = (Returned (Some (JObj body')), s')"
    by (simp add: handle_response_def handle_ok_def map_of_eq_None_iff)
  ultimately show ?thesis
    by blast
qed

theorem marker_only_response_yields_none_witness:
  "execute_query permission_only_world ''q'' None 5 one_key_client =
     (None,
      \<lparr>api_keys = [''A''], current_key_index = 0, posts = 2, draws = 0,
       trace = [RateLimitPost ''A'', DataPost ''A'' [(''query'', JStr ''q'')]]\<rparr>)
   \<and> handle_response permission_only_world 0 200 (Some (JObj [])) one_key_client
     = (Returned (Some (JObj [])), one_key_client)"
proof -
  let ?s1 = "\<lparr>api_keys = [''A''], current_key_index = 0, posts = 1, draws = 0,
    trace = [RateLimitPost ''A'']\<rparr>"
  let ?errs = "[JObj [(''type'', JStr ''INSUFFICIENT_SCOPES''),
    (''message'', JStr ''You do not have permission to view this'')]]"
  let ?body = "[(''errors'', JArr ?errs)]"
  have r: "int 0 < 5"
    by simp
  have g: "rate_gate permission_only_world 0 one_key_client = (Proceed, ?s1)"
    by (simp add: rate_gate_def check_rate_limit_def current_key_def session_post_def
        one_key_client_def permission_only_world_def quota_ok_body_def rate_limit_of_def
        try_then_def RATE_LIMIT_THRESHOLD_def)
  have k: "current_key ?s1 = Inr ''A''"
    by (simp add: current_key_def)
  have n: "net permission_only_world (posts ?s1) = Response 200 (Some (JObj ?body))"
    by (simp add: permission_only_world_def permission_only_body_def)
  have d: "map_of ?body ''data'' = None" and e: "map_of ?body ''errors'' = Some (JArr ?errs)"
    by simp_all
  have ne: "?errs \<noteq> []"
    by simp
  have m: "\<forall>e\<in>set ?errs. authorization_marker e"
    by (simp add: authorization_marker_def) code_simp
  have nil: "map_of ([] :: (string \<times> json) list) ''errors'' = None"
    by simp
  from marker_only_response_yields_none [OF r g k n d e ne m, of "''q''" None]
  show ?thesis
    using nil by (simp add: execute_query_def payload_of_def)
qed

lemma handle_ok_unclassified:
  assumes "map_of body ''errors'' = Some errors"
    and "has_forbidden errors = Inr False"
    and "has_permission_error errors = Inr False"
    and "\<not> sublist ''rate limit'' (py_lower (py_str errors))"
    and "\<not> sublist ''timeout'' (py_lower (py_str errors))"
  shows "handle_ok retry_count (JObj body) s = (Returned (Some (JObj body)), s)"
proof -
  have "''errors'' \<in> fst ` set body"
    using assms(1) by (metis map_of_eq_None_iff option.distinct(1))
  with assms show ?thesis
    by (simp add: handle_ok_def)
qed

text \<open>
  Claim C3 as stated fails: a 200 response whose errors are neither authorization markers
  nor mention a rate limit or a timeout is returned at once, errors and all.
\<close>

theorem unclassified_errors_not_retried:
  "execute_query not_found_world ''q'' None 5 one_key_client =
     (Some not_found_body,
      \<lparr>api_keys = [''A''], current_key_index = 0, posts = 2, draws = 0,
       trace = [RateLimitPost ''A'', DataPost ''A'' [(''query'', JStr ''q'')]]\<rparr>)"
proof -
  let ?s1 = "\<lparr>api_keys = [''A''], current_key_index = 0, posts = 1, draws = 0,
    trace = [RateLimitPost ''A'']\<rparr>"
  let ?s2 = "?s1\<lparr>posts := posts ?s1 + 1,
    trace := trace ?s1 @ [DataPost ''A'' (payload_of ''q'' None)]\<rparr>"
  let ?errs = "JArr [JObj [(''type'', JStr ''NOT_FOUND''),
    (''message'', JStr ''Could not resolve to a User'')]]"
  let ?body = "[(''data'', JObj [(''user'', JNull)]), (''errors'', ?errs)]"
  have g: "rate_gate not_found_world 0 one_key_client = (Proceed, ?s1)"
    by (simp add: rate_gate_def check_rate_limit_def current_key_def session_post_def
        one_key_client_def not_found_world_def quota_ok_body_def rate_limit_of_def
        try_then_def RATE_LIMIT_THRESHOLD_def)
  have k: "current_key ?s1 = Inr ''A''"
    by (simp add: current_key_def)
  have n: "net not_found_world (posts ?s1) = Response 200 (Some (JObj ?body))"
    by (simp add: not_found_world_def not_found_body_def)
  have e: "map_of ?body ''errors'' = Some ?errs"
    by simp
  have f: "has_forbidden ?errs = Inr False"
    by code_simp
  have p: "has_permission_error ?errs = Inr False"
    by code_simp
  have r: "\<not> sublist ''rate limit'' (py_lower (py_str ?errs))"
    by code_simp
  have t: "\<not> sublist ''timeout'' (py_lower (py_str ?errs))"
    by code_simp
  have "try_body not_found_world ''q'' None 0 one_key_client = handle_ok 0 (JObj ?body) ?s2"
    using g k n by (rule attempt_ok_response)
  also have "\<dots> = (Returned (Some (JObj ?body)), ?s2)"
    using e f p r t by (rule handle_ok_unclassified)
  finally have "execute_loop not_found_world ''q'' None 5 0 one_key_client
      = (Some (JObj ?body), ?s2)"
    by (rule execute_loop_returned [rotated]) simp
  then show ?thesis
    by (simp add: execute_query_def not_found_body_def payload_of_def)
qed

text \<open>
  Claim C3, as amended. An attempt that reaches the data call and is answered with status
  200 and a body whose \<^verbatim>\<open>errors\<close> the client classifies neither as authorization
  markers nor as a rate limit nor as a timeout makes \<^verbatim>\<open>execute_query\<close> return the
  body itself at once: no backoff, no retry, no further request.
\<close>

theorem unclassified_errors_returned:
  assumes "int retry_count < max_retries"
    and "rate_gate w retry_count s = (Proceed, s1)"
    and "current_key s1 = Inr key"
    and "net w (posts s1) = Response 200 (Some (JObj body))"
    and "map_of body ''errors'' = Some errors"
    and "has_forbidden errors = Inr False"
    and "has_permission_error errors = Inr False"
    and "\<not> sublist ''rate limit'' (py_lower (py_str errors))"
    and "\<not> sublist ''timeout'' (py_lower (py_str errors))"
  shows "execute_loop w query vars max_retries retry_count s =
    (Some (JObj body),
     s1\<lparr>posts := posts s1 + 1, trace := trace s1 @ [DataPost key (payload_of query vars)]\<rparr>)"
proof -
  let ?s2 = "s1\<lparr>posts := posts s1 + 1, trace := trace s1 @ [DataPost key (payload_of query vars)]\<rparr>"
  have "try_body w query vars retry_count s = handle_ok retry_count (JObj body) ?s2"
    using assms(2,3,4) by (rule attempt_ok_response)
  also have "\<dots> = (Returned (Some (JObj body)), ?s2)"
    using assms(5,6,7,8,9) by (rule handle_ok_unclassified)
  finally show ?thesis
    using assms(1) by (rule execute_loop_returned [rotated])
qed

theorem unclassified_errors_returned_witness:
  "execute_loop not_found_world ''q'' None 5 2
      \<lparr>api_keys = [''A''], current_key_index = 0, posts = 1, draws = 0,
       trace = [RateLimitPost ''A'']\<rparr> =
     (Some not_found_body,
      \<lparr>api_keys = [''A''], current_key_index = 0, posts = 2, draws = 0,
       trace = [RateLimitPost ''A'', DataPost ''A'' [(''query'', JStr ''q'')]]\<rparr>)"
proof -
  let ?s1 = "\<lparr>api_keys = [''A''], current_key_index = 0, posts = 1, draws = 0,
    trace = [RateLimitPost ''A'']\<rparr>"
  let ?errs = "JArr [JObj [(''type'', JStr ''NOT_FOUND''),
    (''message'', JStr ''Could not resolve to a User'')]]"
  let ?body = "[(''data'', JObj [(''user'', JNull)]), (''errors'', ?errs)]"
  have c: "int 2 < 5"
    by simp
  have g: "rate_gate not_found_world 2 ?s1 = (Proceed, ?s1)"
    by (simp add: rate_gate_def)
  have k: "current_key ?s1 = Inr ''A''"
    by (simp add: current_key_def)
  have n: "net not_found_world (posts ?s1) = Response 200 (Some (JObj ?body))"
    by (simp add: not_found_world_def not_found_body_def)
  have e: "map_of ?body ''errors'' = Some ?errs"
    by simp
  have f: "has_forbidden ?errs = Inr False"
    by code_simp
  have p: "has_permission_error ?errs = Inr False"
    by code_simp
  have r: "\<not> sublist ''rate limit'' (py_lower (py_str ?errs))"
    by code_simp
  have t: "\<not> sublist ''timeout'' (py_lower (py_str ?errs))"
    by code_simp
  from unclassified_errors_returned [OF c g k n e f p r t, of "''q''" None]
  show ?thesis
    by (simp add: not_found_body_def payload_of_def)
qed

section \<open>The rate-limit check and the retries\<close>

lemma rate_checks_simps [simp]:
  "rate_checks [] = 0"
  "rate_checks (RateLimitPost k # evs) = Suc (rate_checks evs)"
  "rate_checks (DataPost k p # evs) = rate_checks evs"
  "rate_checks (Sleep n # evs) = rate_checks evs"
  "rate_checks (SleepHalf # evs) = rate_checks evs"
  "rate_checks (evs @ evs') = rate_checks evs + rate_checks evs'"
  "rate_checks (replicate n (Sleep m)) = 0"
  by (simp_all add: rate_checks_def is_rate_check_def)

lemma quiet_refl [simp]: "quiet s s"
  by (simp add: quiet_def)

lemma quiet_trans: "quiet s s1 \<Longrightarrow> quiet s1 s2 \<Longrightarrow> quiet s s2"
  by (auto simp: quiet_def)

lemma quiet_sleep [simp]: "quiet s (sleep n s)"
  by (simp add: quiet_def sleep_def)

lemma quiet_rate_limit_wait [simp]: "quiet s (rate_limit_wait n s)"
  by (simp add: quiet_def rate_limit_wait_def)

lemma quiet_rotate_key: "rotate_key s = (b, s') \<Longrightarrow> quiet s s'"
  by (auto simp: rotate_key_def quiet_def sleep_def split: if_splits)

lemma quiet_random: "random_randint_0_10 w s = (j, s') \<Longrightarrow> quiet s s'"
  by (auto simp: random_randint_0_10_def quiet_def)

lemma quiet_data_post: "session_post w (DataPost k p) s = (out, s') \<Longrightarrow> quiet s s'"
  by (auto simp: session_post_def quiet_def)

lemma quiet_handle_ok: "handle_ok retry_count data s = (st, s') \<Longrightarrow> quiet s s'"
  by (auto simp: handle_ok_def Let_def dest: quiet_rotate_key
      split: sum.splits bool.splits if_splits prod.splits)

lemma quiet_handle_response:
  assumes "handle_response w retry_count status body s = (st, s')"
  shows "quiet s s'"
proof -
  consider "status = 200" | "status \<noteq> 200" "status = 401" | "status \<noteq> 200" "status = 403"
    | "status \<noteq> 200" "status \<noteq> 401" "status \<noteq> 403" "500 \<le> status"
    | "status \<noteq> 200" "status \<noteq> 401" "status \<noteq> 403" "\<not> 500 \<le> status"
    by linarith
  then show ?thesis
  proof cases
    case 1
    with assms show ?thesis
      by (auto simp: handle_response_def dest: quiet_handle_ok split: option.splits)
  next
    case 2
    with assms show ?thesis
      by (auto simp: handle_response_def dest: quiet_rotate_key split: prod.splits bool.splits)
  next
    case 3
    with assms show ?thesis
      by (auto simp: handle_response_def dest: quiet_rotate_key
          intro: quiet_trans [OF _ quiet_rate_limit_wait] split: prod.splits bool.splits)
  next
    case 4
    with assms show ?thesis
      by (auto simp: handle_response_def dest: quiet_random
          intro: quiet_trans [OF _ quiet_sleep] split: prod.splits)
  next
    case 5
    with assms show ?thesis
      by (auto simp: handle_response_def)
  qed
qed

text \<open>What follows the rate-limit gate inside the \<^verbatim>\<open>try\<close> block and its handlers.\<close>

lemma quiet_after_post:
  assumes "rate_gate w retry_count s = (Proceed, s1)"
    and "current_key s1 = Inr key"
    and "attempt w query vars retry_count s = (it, s')"
  shows "quiet (snd (session_post w (DataPost key (payload_of query vars)) s1)) s'"
proof -
  obtain out s2 where post: "session_post w (DataPost key (payload_of query vars)) s1 = (out, s2)"
    by (cases "session_post w (DataPost key (payload_of query vars)) s1")
  have "quiet s2 s'"
  proof (cases out)
    case (Raises e)
    with assms post have "s' = sleep (connection_wait retry_count) s2
        \<or> s' = sleep (2 ^ (retry_count + 1)) s2"
      by (auto simp: attempt_def try_body_def split: if_splits)
    then show ?thesis
      by auto
  next
    case (Response status body)
    obtain st s3 where h: "handle_response w retry_count status body s2 = (st, s3)"
      by (cases "handle_response w retry_count status body s2")
    then have q23: "quiet s2 s3"
      by (rule quiet_handle_response)
    from assms post Response h have "s' = s3 \<or> s' = sleep (connection_wait retry_count) s3
        \<or> s' = sleep (2 ^ (retry_count + 1)) s3"
      by (auto simp: attempt_def try_body_def split: step.splits if_splits)
    then show ?thesis
      using q23 by (auto intro: quiet_trans [OF _ quiet_sleep])
  qed
  with post show ?thesis
    by simp
qed

lemma quiet_after_gate:
  assumes "rate_gate w retry_count s = (Proceed, s1)"
    and "attempt w query vars retry_count s = (it, s')"
  shows "quiet s1 s'"
proof (cases "current_key s1")
  case (Inl e)
  with assms show ?thesis
    by (auto simp: attempt_def try_body_def split: if_splits)
next
  case (Inr key)
  have "quiet s1 (snd (session_post w (DataPost key (payload_of query vars)) s1))"
    by (simp add: session_post_def quiet_def)
  then show ?thesis
    using quiet_after_post [OF assms(1) Inr assms(2)] by (rule quiet_trans)
qed

lemma quiet_retry_attempt:
  assumes "0 < retry_count" and "attempt w query vars retry_count s = (it, s')"
  shows "quiet s s'"
  using assms quiet_after_gate [of w retry_count s s query vars it s']
  by (simp add: rate_gate_def)

lemma quiet_retries:
  "0 < retry_count \<Longrightarrow> quiet s (snd (execute_loop w query vars max_retries retry_count s))"
proof (induction w query vars max_retries retry_count s rule: execute_loop.induct)
  case (1 w query vars max_retries retry_count s)
  show ?case
  proof (cases "int retry_count < max_retries")
    case False
    then show ?thesis
      by (subst execute_loop.simps) simp
  next
    case True
    obtain it s1 where a: "attempt w query vars retry_count s = (it, s1)"
      by (cases "attempt w query vars retry_count s")
    have q: "quiet s s1"
      using "1.prems" a by (rule quiet_retry_attempt)
    show ?thesis
    proof (cases it)
      case (Return r)
      with True a q show ?thesis
        by (subst execute_loop.simps) simp
    next
      case (Retry r)
      with a have "r = retry_count + 1"
        using attempt_retry by blast
      with "1.IH" [OF True a [symmetric] Retry]
      have "quiet s1 (snd (execute_loop w query vars max_retries r s1))"
        by simp
      with q have "quiet s (snd (execute_loop w query vars max_retries r s1))"
        by (rule quiet_trans)
      with True a Retry show ?thesis
        by (subst execute_loop.simps) simp
    qed
  qed
qed

text \<open>A stretch of the trace in which only the first event may be a rate-limit check.\<close>

lemma check_rate_limit_trace:
  assumes "check_rate_limit w s = (rate_limit, s1)"
  shows "trace s1 = trace s @ (case current_key s of Inl e \<Rightarrow> [] | Inr key \<Rightarrow> [RateLimitPost key])
    \<and> api_keys s1 = api_keys s \<and> current_key_index s1 = current_key_index s"
  using assms
  by (auto simp: check_rate_limit_def session_post_def
      split: sum.splits prod.splits net_outcome.splits if_splits option.splits)

lemma rate_checks_tl_append:
  "rate_checks (tl evs) = 0 \<Longrightarrow> rate_checks evs' = 0 \<Longrightarrow> rate_checks (tl (evs @ evs')) = 0"
  by (cases evs; cases evs') (auto simp: rate_checks_def split: if_splits)

lemma first_then_quiet:
  assumes "\<exists>evs. trace s1 = trace s @ evs \<and> rate_checks (tl evs) = 0" and "quiet s1 s2"
  shows "\<exists>evs. trace s2 = trace s @ evs \<and> rate_checks (tl evs) = 0"
proof -
  from assms obtain evs evs' where "trace s1 = trace s @ evs" "rate_checks (tl evs) = 0"
    "trace s2 = trace s1 @ evs'" "rate_checks evs' = 0"
    by (auto simp: quiet_def)
  then have "trace s2 = trace s @ (evs @ evs')" "rate_checks (tl (evs @ evs')) = 0"
    by (simp_all add: rate_checks_tl_append)
  then show ?thesis
    by blast
qed

lemma rate_gate_first:
  assumes "rate_gate w retry_count s = (g, s1)"
  shows "\<exists>evs. trace s1 = trace s @ evs \<and> rate_checks (tl evs) = 0"
proof (cases "retry_count = 0")
  case False
  with assms show ?thesis
    by (simp add: rate_gate_def)
next
  case True
  obtain rate_limit s0 where c: "check_rate_limit w s = (rate_limit, s0)"
    by (cases "check_rate_limit w s")
  have first: "\<exists>evs. trace s0 = trace s @ evs \<and> rate_checks (tl evs) = 0"
    using check_rate_limit_trace [OF c] by (auto split: sum.splits)
  have "quiet s0 s1"
    using assms True c
    by (auto simp: rate_gate_def dest: quiet_rotate_key
        intro: quiet_trans [OF _ quiet_rate_limit_wait]
        split: sum.splits bool.splits prod.splits)
  with first show ?thesis
    by (rule first_then_quiet)
qed

lemma attempt_first:
  assumes "attempt w query vars retry_count s = (it, s')"
  shows "\<exists>evs. trace s' = trace s @ evs \<and> rate_checks (tl evs) = 0"
proof -
  obtain g s1 where g: "rate_gate w retry_count s = (g, s1)"
    by (cases "rate_gate w retry_count s")
  note first = rate_gate_first [OF g]
  have "quiet s1 s'"
  proof (cases g)
    case Proceed
    with g assms show ?thesis
      by (auto intro: quiet_after_gate)
  next
    case (GateContinue r)
    with g assms show ?thesis
      by (auto simp: attempt_def try_body_def)
  next
    case (GateRaised e)
    with g assms show ?thesis
      by (auto simp: attempt_def try_body_def split: if_splits)
  qed
  with first show ?thesis
    by (rule first_then_quiet)
qed

lemma execute_loop_unfold_first:
  assumes "int retry_count < max_retries"
    and "attempt w query vars retry_count s = (it, s')"
  shows "quiet s' (snd (execute_loop w query vars max_retries retry_count s))"
proof (cases it)
  case (Return r)
  with assms show ?thesis
    by (subst execute_loop.simps) simp
next
  case (Retry r)
  with assms(2) have r: "r = retry_count + 1"
    using attempt_retry by blast
  then have "quiet s' (snd (execute_loop w query vars max_retries r s'))"
    by (simp add: quiet_retries)
  with assms Retry show ?thesis
    by (subst execute_loop.simps) simp
qed

text \<open>
  Claim C5. Within one call of \<^verbatim>\<open>execute_query\<close> only the very first event can be a
  rate-limit check, and a run of the loop that starts at a retry (a positive retry count)
  makes none. With two keys and a first snapshot whose \<^verbatim>\<open>remaining\<close> is below the
  threshold, the call checks the quota with the active key, rotates (the one-second
  pause), and the next thing it does is the data call with the other key; no rate-limit
  check follows.
\<close>

theorem rate_limit_checked_on_first_attempt_only:
  "(\<exists>evs. trace (snd (execute_query w query vars max_retries s)) = trace s @ evs
        \<and> rate_checks (tl evs) = 0)
   \<and> (0 < retry_count \<longrightarrow>
        (\<exists>evs. trace (snd (execute_loop w query vars max_retries retry_count s)) = trace s @ evs
           \<and> rate_checks evs = 0))
   \<and> (length (api_keys s) = 2 \<and> current_key_index s < 2 \<and> 0 < max_retries
        \<and> check_rate_limit w s = (rate_limit, s1)
        \<and> py_get rate_limit ''remaining'' (JNum 0) = Inr (JNum remaining)
        \<and> remaining < RATE_LIMIT_THRESHOLD \<longrightarrow>
        (\<exists>evs. trace (snd (execute_query w query vars max_retries s)) =
            trace s @ [RateLimitPost (api_keys s ! current_key_index s), Sleep 1,
                       DataPost (api_keys s ! ((current_key_index s + 1) mod 2))
                         (payload_of query vars)] @ evs
           \<and> rate_checks evs = 0))"
proof (intro conjI impI)
  show "\<exists>evs. trace (snd (execute_query w query vars max_retries s)) = trace s @ evs
      \<and> rate_checks (tl evs) = 0"
  proof (cases "0 < max_retries")
    case False
    then show ?thesis
      by (subst execute_query_def, subst execute_loop.simps) simp
  next
    case True
    obtain it s' where a: "attempt w query vars 0 s = (it, s')"
      by (cases "attempt w query vars 0 s")
    from True have "int 0 < max_retries"
      by simp
    then have "quiet s' (snd (execute_loop w query vars max_retries 0 s))"
      using a by (rule execute_loop_unfold_first)
    with attempt_first [OF a] show ?thesis
      unfolding execute_query_def by (rule first_then_quiet)
  qed
next
  assume "0 < retry_count"
  then have "quiet s (snd (execute_loop w query vars max_retries retry_count s))"
    by (rule quiet_retries)
  then show "\<exists>evs. trace (snd (execute_loop w query vars max_retries retry_count s)) = trace s @ evs
      \<and> rate_checks evs = 0"
    by (simp add: quiet_def)
next
  assume h: "length (api_keys s) = 2 \<and> current_key_index s < 2 \<and> 0 < max_retries
    \<and> check_rate_limit w s = (rate_limit, s1)
    \<and> py_get rate_limit ''remaining'' (JNum 0) = Inr (JNum remaining)
    \<and> remaining < RATE_LIMIT_THRESHOLD"
  let ?a = "api_keys s ! current_key_index s"
  let ?b = "api_keys s ! ((current_key_index s + 1) mod 2)"
  let ?s2 = "sleep 1 (s1\<lparr>current_key_index := (current_key_index s1 + 1) mod length (api_keys s1)\<rparr>)"
  from h have cur: "current_key s = Inr ?a"
    by (simp add: current_key_def)
  from h check_rate_limit_trace [of w s rate_limit s1] cur
  have s1: "trace s1 = trace s @ [RateLimitPost ?a]" "api_keys s1 = api_keys s"
    "current_key_index s1 = current_key_index s"
    by simp_all
  have gate: "rate_gate w 0 s = (Proceed, ?s2)"
    using h s1 by (simp add: rate_gate_def try_then_def rotate_key_def)
  have key: "current_key ?s2 = Inr ?b"
    using h s1 by (simp add: current_key_def sleep_def)
  have tr2: "trace ?s2 = trace s @ [RateLimitPost ?a, Sleep 1]"
    using s1 by (simp add: sleep_def)
  obtain it s' where a: "attempt w query vars 0 s = (it, s')"
    by (cases "attempt w query vars 0 s")
  let ?s3 = "snd (session_post w (DataPost ?b (payload_of query vars)) ?s2)"
  have tr3: "trace ?s3 = trace s @ [RateLimitPost ?a, Sleep 1, DataPost ?b (payload_of query vars)]"
    using tr2 by (simp add: session_post_def)
  have "quiet ?s3 s'"
    using gate key a by (rule quiet_after_post)
  moreover from h have "int 0 < max_retries"
    by simp
  then have "quiet s' (snd (execute_loop w query vars max_retries 0 s))"
    using a by (rule execute_loop_unfold_first)
  ultimately have "quiet ?s3 (snd (execute_query w query vars max_retries s))"
    unfolding execute_query_def by (rule quiet_trans)
  then show "\<exists>evs. trace (snd (execute_query w query vars max_retries s)) =
      trace s @ [RateLimitPost ?a, Sleep 1, DataPost ?b (payload_of query vars)] @ evs
      \<and> rate_checks evs = 0"
    unfolding quiet_def tr3 by simp
qed

theorem rate_limit_checked_on_first_attempt_only_witness:
  "(\<exists>evs. trace (snd (execute_query low_quota_world ''q'' None 5 two_key_client)) =
      [RateLimitPost ''A'', Sleep 1, DataPost ''B'' [(''query'', JStr ''q'')]] @ evs
      \<and> rate_checks evs = 0)
   \<and> (\<exists>evs. trace (snd (execute_loop low_quota_world ''q'' None 5 1 two_key_client)) = evs
      \<and> rate_checks evs = 0)"
proof -
  let ?rl = "JObj [(''limit'', JNum 5000), (''remaining'', JNum 50)]"
  let ?s1 = "\<lparr>api_keys = [''A'', ''B''], current_key_index = 0, posts = 1, draws = 0,
    trace = [RateLimitPost ''A'']\<rparr>"
  have c: "check_rate_limit low_quota_world two_key_client = (?rl, ?s1)"
    by (simp add: check_rate_limit_def current_key_def session_post_def two_key_client_def
        low_quota_world_def rate_limit_of_def try_then_def)
  have r: "py_get ?rl ''remaining'' (JNum 0) = Inr (JNum 50)"
    by simp
  have k: "length (api_keys two_key_client) = 2" "current_key_index two_key_client < 2"
    "trace two_key_client = []" "api_keys two_key_client ! current_key_index two_key_client = ''A''"
    "api_keys two_key_client ! ((current_key_index two_key_client + 1) mod 2) = ''B''"
    by (simp_all add: two_key_client_def)
  have t: "(50::int) < RATE_LIMIT_THRESHOLD" "(0::int) < 5" "(0::nat) < 1"
    by (simp_all add: RATE_LIMIT_THRESHOLD_def)
  from rate_limit_checked_on_first_attempt_only
    [of low_quota_world "''q''" None 5 two_key_client 1 ?rl ?s1 50]
  show ?thesis
    using c r k t by (simp add: payload_of_def)
qed

section \<open>Pagination\<close>

lemma execute_query_plain_success:
  assumes "net w 0 = Response 200 (Some quota_ok_body)"
    and "net w 1 = Response 200 (Some (JObj body))"
    and "map_of body ''errors'' = None"
  shows "execute_query w query vars 5 one_key_client =
    (Some (JObj body),
     \<lparr>api_keys = [''A''], current_key_index = 0, posts = 2, draws = 0,
      trace = [RateLimitPost ''A'', DataPost ''A'' (payload_of query vars)]\<rparr>)"
proof -
  let ?s1 = "\<lparr>api_keys = [''A''], current_key_index = 0, posts = 1, draws = 0,
    trace = [RateLimitPost ''A'']\<rparr>"
  let ?s2 = "?s1\<lparr>posts := posts ?s1 + 1,
    trace := trace ?s1 @ [DataPost ''A'' (payload_of query vars)]\<rparr>"
  have g: "rate_gate w 0 one_key_client = (Proceed, ?s1)"
    using assms(1)
    by (simp add: rate_gate_def check_rate_limit_def current_key_def session_post_def
        one_key_client_def quota_ok_body_def rate_limit_of_def try_then_def
        RATE_LIMIT_THRESHOLD_def)
  have k: "current_key ?s1 = Inr ''A''"
    by (simp add: current_key_def)
  have n: "net w (posts ?s1) = Response 200 (Some (JObj body))"
    using assms(2) by simp
  have "try_body w query vars 0 one_key_client = handle_ok 0 (JObj body) ?s2"
    using g k n by (rule attempt_ok_response)
  also have "\<dots> = (Returned (Some (JObj body)), ?s2)"
    using assms(3) by (simp add: handle_ok_def map_of_eq_None_iff)
  finally have "execute_loop w query vars 5 0 one_key_client = (Some (JObj body), ?s2)"
    by (rule execute_loop_returned [rotated]) simp
  then show ?thesis
    by (simp add: execute_query_def)
qed

text \<open>
  Claim C9 fails for \<^verbatim>\<open>paginate_query\<close>: the walk along \<^verbatim>\<open>page_info_path\<close> tests
  \<^verbatim>\<open>key in page_info_data\<close> without checking that the value reached is a dictionary.
  A 200 response \<^verbatim>\<open>{"data": {"user": null}}\<close> with the path
  \<^verbatim>\<open>['user', 'followers']\<close> raises \<^verbatim>\<open>TypeError\<close> out of \<^verbatim>\<open>paginate_query\<close>.
\<close>

theorem paginate_query_raises_on_null_step:
  "paginate_query null_user_world ''q'' [(''login'', JStr ''u'')] [''user'', ''followers''] None
      one_key_client =
     Some (Inl TypeError, [(''login'', JStr ''u'')],
       \<lparr>api_keys = [''A''], current_key_index = 0, posts = 2, draws = 0,
        trace = [RateLimitPost ''A'',
                 DataPost ''A'' [(''query'', JStr ''q''),
                                 (''variables'', JObj [(''login'', JStr ''u'')])]]\<rparr>)"
proof -
  have e: "execute_query null_user_world ''q'' (Some [(''login'', JStr ''u'')]) 5 one_key_client =
    (Some null_user_body,
     \<lparr>api_keys = [''A''], current_key_index = 0, posts = 2, draws = 0,
      trace = [RateLimitPost ''A'',
               DataPost ''A'' (payload_of ''q'' (Some [(''login'', JStr ''u'')]))]\<rparr>)"
    unfolding null_user_body_def
    by (rule execute_query_plain_success) (simp_all add: null_user_world_def null_user_body_def)
  show ?thesis
    unfolding paginate_query_def
    by (subst paginate_loop.simps)
      (simp add: paginate_step_def keeps_going_def request_variables_def e null_user_body_def
        on_success_def try_then_def payload_of_def Let_def)
qed

lemma paginate_step_failure:
  assumes "keeps_going max_pages p"
    and "execute_query w query (Some (request_variables p)) 5 (client p) = (r, s)"
    and "no_usable_result r"
  shows "paginate_step w query path max_pages p = on_failure p (request_variables p) s"
  using assms
  by (auto simp: paginate_step_def no_usable_result_def Let_def split: option.splits)

lemma paginate_step_success:
  assumes "keeps_going max_pages p"
    and "execute_query w query (Some (request_variables p)) 5 (client p) = (Some result, s)"
    and "\<not> no_usable_result (Some result)"
  shows "paginate_step w query path max_pages p
    = (case py_in ''data'' result of
         Inl e \<Rightarrow> Stop (Inl e, request_variables p, s)
       | Inr b \<Rightarrow> on_success path p (request_variables p) result s)"
  using assms
  by (auto simp: paginate_step_def no_usable_result_def Let_def split: sum.splits)

lemma request_variables_after_failure [simp]:
  "request_variables (p\<lparr>variables := request_variables p, consecutive_failures := n,
      client := s\<rparr>) = request_variables p"
  by (simp add: request_variables_def)

lemma keeps_going_after_failure [simp]:
  "keeps_going max_pages (p\<lparr>variables := v, consecutive_failures := n, client := s\<rparr>)
    = keeps_going max_pages p"
  by (simp add: keeps_going_def split: option.splits)




section \<open>The caller's variables dictionary\<close>

text \<open>
  Claim C10 as stated fails: the cursor is written at the head of the next iteration, so a
  cursor obtained from the last page fetched is never written. A single page that ends
  the listing with \<^verbatim>\<open>endCursor = "X"\<close> leaves the dictionary without \<^verbatim>\<open>after\<close>.
\<close>

theorem last_cursor_not_written:
  "paginate_query last_page_world ''q'' [(''login'', JStr ''u'')] [''user'', ''followers''] None
      one_key_client =
     Some (Inr [last_page_body], [(''login'', JStr ''u'')],
       \<lparr>api_keys = [''A''], current_key_index = 0, posts = 2, draws = 0,
        trace = [RateLimitPost ''A'',
                 DataPost ''A'' [(''query'', JStr ''q''),
                                 (''variables'', JObj [(''login'', JStr ''u'')])],
                 SleepHalf]\<rparr>)"
proof -
  let ?s2 = "\<lparr>api_keys = [''A''], current_key_index = 0, posts = 2, draws = 0,
      trace = [RateLimitPost ''A'',
               DataPost ''A'' (payload_of ''q'' (Some [(''login'', JStr ''u'')]))]\<rparr>"
  let ?p = "\<lparr>variables = [(''login'', JStr ''u'')], all_results = [], has_next = True,
    cursor = JNull, page_count = 0, consecutive_failures = 0, client = one_key_client\<rparr>"
  let ?p1 = "\<lparr>variables = [(''login'', JStr ''u'')], all_results = [last_page_body],
    has_next = False, cursor = JStr ''X'', page_count = 1, consecutive_failures = 0,
    client = sleep_half ?s2\<rparr>"
  have e: "execute_query last_page_world ''q'' (Some [(''login'', JStr ''u'')]) 5 one_key_client =
    (Some last_page_body, ?s2)"
    unfolding last_page_body_def
    by (rule execute_query_plain_success) (simp_all add: last_page_world_def last_page_body_def)
  have step1: "paginate_step last_page_world ''q'' [''user'', ''followers''] None ?p = Next ?p1"
    by (simp add: paginate_step_def keeps_going_def request_variables_def e last_page_body_def
        on_success_def read_page_info_def try_then_def Let_def)
  have step2: "paginate_step last_page_world ''q'' [''user'', ''followers''] None ?p1
      = Stop (Inr [last_page_body], [(''login'', JStr ''u'')], sleep_half ?s2)"
    by (simp add: paginate_step_def keeps_going_def)
  have "paginate_loop last_page_world ''q'' [''user'', ''followers''] None ?p
      = paginate_loop last_page_world ''q'' [''user'', ''followers''] None ?p1"
    by (subst paginate_loop.simps) (simp only: step1 pager_step.case)
  also have "\<dots> = Some (Inr [last_page_body], [(''login'', JStr ''u'')], sleep_half ?s2)"
    by (subst paginate_loop.simps) (simp only: step2 pager_step.case)
  finally show ?thesis
    unfolding paginate_query_def by (simp add: sleep_half_def payload_of_def)
qed

lemma execute_query_success_at:
  assumes "api_keys s = [''A'']" and "current_key_index s = 0"
    and "net w (posts s) = Response 200 (Some quota_ok_body)"
    and "net w (Suc (posts s)) = Response 200 (Some (JObj body))"
    and "map_of body ''errors'' = None"
  shows "execute_query w query vars 5 s =
    (Some (JObj body),
     s\<lparr>posts := posts s + 2,
       trace := trace s @ [RateLimitPost ''A'', DataPost ''A'' (payload_of query vars)]\<rparr>)"
proof -
  let ?s1 = "s\<lparr>posts := posts s + 1, trace := trace s @ [RateLimitPost ''A'']\<rparr>"
  let ?s2 = "?s1\<lparr>posts := posts ?s1 + 1,
    trace := trace ?s1 @ [DataPost ''A'' (payload_of query vars)]\<rparr>"
  have g: "rate_gate w 0 s = (Proceed, ?s1)"
    using assms(1,2,3)
    by (simp add: rate_gate_def check_rate_limit_def current_key_def session_post_def
        quota_ok_body_def rate_limit_of_def try_then_def RATE_LIMIT_THRESHOLD_def)
  have k: "current_key ?s1 = Inr ''A''"
    using assms(1,2) by (simp add: current_key_def)
  have n: "net w (posts ?s1) = Response 200 (Some (JObj body))"
    using assms(4) by simp
  have "try_body w query vars 0 s = handle_ok 0 (JObj body) ?s2"
    using g k n by (rule attempt_ok_response)
  also have "\<dots> = (Returned (Some (JObj body)), ?s2)"
    using assms(5) by (simp add: handle_ok_def map_of_eq_None_iff)
  finally have "execute_loop w query vars 5 0 s = (Some (JObj body), ?s2)"
    by (rule execute_loop_returned [rotated]) simp
  then show ?thesis
    by (simp add: execute_query_def)
qed

text \<open>The run of the two-page scenario: the second request carries the cursor of the
  first page; the cursor of the second page is read and dropped.\<close>

lemma two_page_run:
  assumes "max_pages = None \<or> (\<exists>m. max_pages = Some m \<and> 2 \<le> m)"
  shows "paginate_query two_page_world ''q'' [(''login'', JStr ''u'')] [''user'', ''followers'']
      max_pages one_key_client =
        Some (Inr [first_page_body, second_page_body],
          [(''login'', JStr ''u''), (''after'', JStr ''X'')],
          \<lparr>api_keys = [''A''], current_key_index = 0, posts = 4, draws = 0,
           trace = [RateLimitPost ''A'',
                    DataPost ''A'' [(''query'', JStr ''q''),
                      (''variables'', JObj [(''login'', JStr ''u'')])],
                    SleepHalf,
                    RateLimitPost ''A'',
                    DataPost ''A'' [(''query'', JStr ''q''),
                      (''variables'', JObj [(''login'', JStr ''u''), (''after'', JStr ''X'')])],
                    SleepHalf]\<rparr>)"
proof -
  let ?v = "[(''login'', JStr ''u'')]"
  let ?v2 = "[(''login'', JStr ''u''), (''after'', JStr ''X'')]"
  let ?path = "[''user'', ''followers'']"
  let ?d1 = "DataPost ''A'' [(''query'', JStr ''q''), (''variables'', JObj ?v)]"
  let ?d2 = "DataPost ''A'' [(''query'', JStr ''q''), (''variables'', JObj ?v2)]"
  let ?s2 = "\<lparr>api_keys = [''A''], current_key_index = 0, posts = 2, draws = 0,
    trace = [RateLimitPost ''A'', ?d1]\<rparr>"
  let ?s2h = "\<lparr>api_keys = [''A''], current_key_index = 0, posts = 2, draws = 0,
    trace = [RateLimitPost ''A'', ?d1, SleepHalf]\<rparr>"
  let ?s4 = "\<lparr>api_keys = [''A''], current_key_index = 0, posts = 4, draws = 0,
    trace = [RateLimitPost ''A'', ?d1, SleepHalf, RateLimitPost ''A'', ?d2]\<rparr>"
  let ?s4h = "\<lparr>api_keys = [''A''], current_key_index = 0, posts = 4, draws = 0,
    trace = [RateLimitPost ''A'', ?d1, SleepHalf, RateLimitPost ''A'', ?d2, SleepHalf]\<rparr>"
  let ?p = "\<lparr>variables = ?v, all_results = [], has_next = True,
    cursor = JNull, page_count = 0, consecutive_failures = 0, client = one_key_client\<rparr>"
  let ?p1 = "\<lparr>variables = ?v, all_results = [first_page_body],
    has_next = True, cursor = JStr ''X'', page_count = 1, consecutive_failures = 0,
    client = ?s2h\<rparr>"
  let ?p2 = "\<lparr>variables = ?v2, all_results = [first_page_body, second_page_body],
    has_next = False, cursor = JStr ''Y'', page_count = 2, consecutive_failures = 0,
    client = ?s4h\<rparr>"
  from assms have k0: "keeps_going max_pages ?p" and k1: "keeps_going max_pages ?p1"
    by (auto simp: keeps_going_def)
  have e1: "execute_query two_page_world ''q'' (Some ?v) 5 one_key_client
      = (Some first_page_body, ?s2)"
    using execute_query_success_at [of one_key_client two_page_world _ "''q''" "Some ?v"]
    by (simp add: two_page_world_def first_page_body_def one_key_client_def payload_of_def)
  have e2: "execute_query two_page_world ''q'' (Some ?v2) 5 ?s2h
      = (Some second_page_body, ?s4)"
    using execute_query_success_at [of ?s2h two_page_world _ "''q''" "Some ?v2"]
    by (simp add: two_page_world_def second_page_body_def payload_of_def)
  have step1: "paginate_step two_page_world ''q'' ?path max_pages ?p = Next ?p1"
    using k0
    by (simp add: paginate_step_def request_variables_def e1 first_page_body_def
        on_success_def read_page_info_def try_then_def Let_def sleep_half_def)
  have step2: "paginate_step two_page_world ''q'' ?path max_pages ?p1 = Next ?p2"
    using k1
    by (simp add: paginate_step_def request_variables_def e2 second_page_body_def
        on_success_def read_page_info_def try_then_def Let_def sleep_half_def)
  have step3: "paginate_step two_page_world ''q'' ?path max_pages ?p2
      = Stop (Inr [first_page_body, second_page_body], ?v2, ?s4h)"
    by (simp add: paginate_step_def keeps_going_def)
  have "paginate_loop two_page_world ''q'' ?path max_pages ?p
      = paginate_loop two_page_world ''q'' ?path max_pages ?p1"
    by (subst paginate_loop.simps) (simp only: step1 pager_step.case)
  also have "\<dots> = paginate_loop two_page_world ''q'' ?path max_pages ?p2"
    by (subst paginate_loop.simps) (simp only: step2 pager_step.case)
  also have "\<dots> = Some (Inr [first_page_body, second_page_body], ?v2, ?s4h)"
    by (subst paginate_loop.simps) (simp only: step3 pager_step.case)
  finally show ?thesis
    unfolding paginate_query_def by simp
qed

section \<open>Pagination with a page limit\<close>

lemma paginate_step_cases:
  assumes "keeps_going max_pages p"
  obtains (raised) e v s where "paginate_step w query path max_pages p = Stop (Inl e, v, s)"
  | (aborted) v s where "no_usable_result (fetched w query p)"
      "paginate_step w query path max_pages p = Stop (Inr (all_results p), v, s)"
  | (failed) p' where "no_usable_result (fetched w query p)"
      "paginate_step w query path max_pages p = Next p'"
      "all_results p' = all_results p" "page_count p' = page_count p"
      "consecutive_failures p' = consecutive_failures p + 1" "consecutive_failures p + 1 < 3"
  | (page) v p' where "fetched w query p = Some v" "\<not> no_usable_result (Some v)"
      "paginate_step w query path max_pages p = Next p'"
      "all_results p' = all_results p @ [v]" "page_count p' = page_count p + 1"
      "consecutive_failures p' = 0"
proof -
  obtain r s where e: "execute_query w query (Some (request_variables p)) 5 (client p) = (r, s)"
    by (cases "execute_query w query (Some (request_variables p)) 5 (client p)")
  then have f: "fetched w query p = r"
    by (simp add: fetched_def)
  show ?thesis
  proof (cases "no_usable_result r")
    case True
    have st: "paginate_step w query path max_pages p = on_failure p (request_variables p) s"
      using assms e True by (rule paginate_step_failure)
    show ?thesis
    proof (cases "consecutive_failures p + 1 < 3")
      case True
      with st have "paginate_step w query path max_pages p
          = Next (p\<lparr>variables := request_variables p,
              consecutive_failures := consecutive_failures p + 1,
              client := sleep (2 ^ (consecutive_failures p + 1)) s\<rparr>)"
        by (simp add: on_failure_def max_consecutive_failures_def Let_def)
      with \<open>no_usable_result r\<close> f True show ?thesis
        by (intro failed [where p' = "p\<lparr>variables := request_variables p,
              consecutive_failures := consecutive_failures p + 1,
              client := sleep (2 ^ (consecutive_failures p + 1)) s\<rparr>"]) simp_all
    next
      case False
      with st have "paginate_step w query path max_pages p
          = Stop (Inr (all_results p), request_variables p, s)"
        by (simp add: on_failure_def max_consecutive_failures_def Let_def)
      with \<open>no_usable_result r\<close> f show ?thesis
        by (intro aborted [where v = "request_variables p" and s = s]) simp_all
    qed
  next
    case False
    then obtain v where r: "r = Some v"
      by (cases r) (simp_all add: no_usable_result_def)
    with e False have st: "paginate_step w query path max_pages p
        = (case py_in ''data'' v of
             Inl e \<Rightarrow> Stop (Inl e, request_variables p, s)
           | Inr b \<Rightarrow> on_success path p (request_variables p) v s)"
      using paginate_step_success [OF assms, of w query v s path] by simp
    show ?thesis
    proof (cases "paginate_step w query path max_pages p")
      case (Stop out)
      with st obtain e' v' s' where "out = (Inl e', v', s')"
        by (auto simp: on_success_def split: sum.splits prod.splits)
      with Stop show ?thesis
        by (intro raised [where e = e' and v = v' and s = s']) simp
    next
      case (Next p')
      with st have "on_success path p (request_variables p) v s = Next p'"
        by (simp split: sum.splits)
      then have "all_results p' = all_results p @ [v]" "page_count p' = page_count p + 1"
        "consecutive_failures p' = 0"
        by (auto simp: on_success_def split: sum.splits prod.splits)
      with Next False r f show ?thesis
        by (intro page [where v = v and p' = p']) simp_all
    qed
  qed
qed

lemma fetch_log_stopped:
  "\<not> keeps_going max_pages p \<Longrightarrow> fetch_log k w query path max_pages p = []"
  by (cases k) simp_all

lemma fetch_log_last:
  assumes "keeps_going max_pages p" and "paginate_step w query path max_pages p = Stop out"
    and "Suc 0 \<le> k"
  shows "fetch_log k w query path max_pages p = [fetched w query p]"
  using assms by (cases k) simp_all

lemma fetch_log_next:
  assumes "keeps_going max_pages p" and "paginate_step w query path max_pages p = Next p'"
  shows "fetch_log (Suc k) w query path max_pages p
    = fetched w query p # fetch_log k w query path max_pages p'"
  using assms by simp

declare fetch_log.simps [simp del]

lemma fetch_log_stable_next:
  assumes "keeps_going max_pages p" and "paginate_step w query path max_pages p = Next p'"
    and "\<forall>k\<ge>n. fetch_log k w query path max_pages p' = fetch_log n w query path max_pages p'"
  shows "\<forall>k\<ge>Suc n. fetch_log k w query path max_pages p
    = fetch_log (Suc n) w query path max_pages p"
proof (intro allI impI)
  fix k
  assume "Suc n \<le> k"
  then obtain k' where k: "k = Suc k'" "n \<le> k'"
    by (cases k) simp_all
  from assms(3) k(2) have same: "fetch_log k' w query path max_pages p'
      = fetch_log n w query path max_pages p'"
    by blast
  have "fetch_log k w query path max_pages p
      = fetched w query p # fetch_log k' w query path max_pages p'"
    unfolding k(1) using assms(1,2) by (rule fetch_log_next)
  also have "\<dots> = fetch_log (Suc n) w query path max_pages p"
    unfolding same using assms(1,2) by (rule fetch_log_next [symmetric])
  finally show "fetch_log k w query path max_pages p
      = fetch_log (Suc n) w query path max_pages p" .
qed

lemma successful_pages_simps [simp]:
  "successful_pages [] = []"
  "no_usable_result r \<Longrightarrow> successful_pages (r # log) = successful_pages log"
  "\<not> no_usable_result (Some v) \<Longrightarrow> successful_pages (Some v # log) = v # successful_pages log"
  by (simp_all add: successful_pages_def)

lemma paginate_loop_finite:
  "\<exists>out. paginate_loop w query path (Some m) p = Some out \<and> run_from w query path m p out"
proof (induction "nat (m - int (page_count p)) * 4 + (3 - consecutive_failures p)"
    arbitrary: p rule: less_induct)
  case less
  show ?case
  proof (cases "keeps_going (Some m) p")
    case False
    then have "paginate_loop w query path (Some m) p
        = Some (Inr (all_results p), variables p, client p)"
      by (subst paginate_loop.simps) (simp add: paginate_step_def)
    moreover have "run_from w query path m p (Inr (all_results p), variables p, client p)"
      using False by (simp add: run_from_def fetch_log_stopped)
    ultimately show ?thesis
      by blast
  next
    case True
    then have limit: "int (page_count p) < m"
      by (simp add: keeps_going_def)
    from True show ?thesis
    proof (cases rule: paginate_step_cases [of "Some m" p w query path])
      case (raised e v s)
      then have "paginate_loop w query path (Some m) p = Some (Inl e, v, s)"
        by (subst paginate_loop.simps) simp
      moreover have "run_from w query path m p (Inl e, v, s)"
        by (simp add: run_from_def)
      ultimately show ?thesis
        by blast
    next
      case (aborted v s)
      then have "paginate_loop w query path (Some m) p = Some (Inr (all_results p), v, s)"
        by (subst paginate_loop.simps) simp
      moreover have "run_from w query path m p (Inr (all_results p), v, s)"
        unfolding run_from_def
      proof (intro allI impI conjI)
        fix pages vars' s'
        assume "(Inr (all_results p), v, s) = (Inr pages, vars', s')"
        then have pages: "pages = all_results p"
          by simp
        show "int (length pages) \<le> int (length (all_results p)) + max 0 (m - int (page_count p))"
          by (simp add: pages)
        have "\<forall>k\<ge>Suc 0. fetch_log k w query path (Some m) p
            = fetch_log (Suc 0) w query path (Some m) p"
          by (simp add: fetch_log_last [OF True aborted(2)])
        moreover have "pages
            = all_results p @ successful_pages (fetch_log (Suc 0) w query path (Some m) p)"
          using aborted(1) by (simp add: pages fetch_log_last [OF True aborted(2)])
        ultimately show "\<exists>n. (\<forall>k\<ge>n. fetch_log k w query path (Some m) p
              = fetch_log n w query path (Some m) p)
            \<and> pages = all_results p @ successful_pages (fetch_log n w query path (Some m) p)"
          by blast
      qed
      ultimately show ?thesis
        by blast
    next
      case (failed p')
      have "nat (m - int (page_count p')) * 4 + (3 - consecutive_failures p')
          < nat (m - int (page_count p)) * 4 + (3 - consecutive_failures p)"
        using failed by simp
      from less [OF this] obtain out where out:
        "paginate_loop w query path (Some m) p' = Some out" "run_from w query path m p' out"
        by blast
      have "paginate_loop w query path (Some m) p = Some out"
        using failed(2) out(1) by (subst paginate_loop.simps) simp
      moreover have "run_from w query path m p out"
        unfolding run_from_def
      proof (intro allI impI)
        fix pages vars' s'
        assume o: "out = (Inr pages, vars', s')"
        with out(2) obtain n where n:
          "int (length pages) \<le> int (length (all_results p')) + max 0 (m - int (page_count p'))"
          "\<forall>k\<ge>n. fetch_log k w query path (Some m) p' = fetch_log n w query path (Some m) p'"
          "pages = all_results p' @ successful_pages (fetch_log n w query path (Some m) p')"
          unfolding run_from_def by blast
        have eq: "pages
            = all_results p @ successful_pages (fetch_log (Suc n) w query path (Some m) p)"
          using n(3) failed(1,3) by (simp add: fetch_log_next [OF True failed(2)])
        have len: "int (length pages)
            \<le> int (length (all_results p)) + max 0 (m - int (page_count p))"
          using n(1) failed(3,4) by simp
        note stable = fetch_log_stable_next [OF True failed(2) n(2)]
        from len stable eq
        show "int (length pages) \<le> int (length (all_results p)) + max 0 (m - int (page_count p))
          \<and> (\<exists>n. (\<forall>k\<ge>n. fetch_log k w query path (Some m) p
                = fetch_log n w query path (Some m) p)
              \<and> pages = all_results p @ successful_pages (fetch_log n w query path (Some m) p))"
          by blast
      qed
      ultimately show ?thesis
        by blast
    next
      case (page v p')
      have "nat (m - int (page_count p')) * 4 + (3 - consecutive_failures p')
          < nat (m - int (page_count p)) * 4 + (3 - consecutive_failures p)"
        using page limit by simp
      from less [OF this] obtain out where out:
        "paginate_loop w query path (Some m) p' = Some out" "run_from w query path m p' out"
        by blast
      have "paginate_loop w query path (Some m) p = Some out"
        using page(3) out(1) by (subst paginate_loop.simps) simp
      moreover have "run_from w query path m p out"
        unfolding run_from_def
      proof (intro allI impI)
        fix pages vars' s'
        assume o: "out = (Inr pages, vars', s')"
        with out(2) obtain n where n:
          "int (length pages) \<le> int (length (all_results p')) + max 0 (m - int (page_count p'))"
          "\<forall>k\<ge>n. fetch_log k w query path (Some m) p' = fetch_log n w query path (Some m) p'"
          "pages = all_results p' @ successful_pages (fetch_log n w query path (Some m) p')"
          unfolding run_from_def by blast
        have eq: "pages
            = all_results p @ successful_pages (fetch_log (Suc n) w query path (Some m) p)"
          using n(3) page(1,2,4) by (simp add: fetch_log_next [OF True page(3)])
        have len: "int (length pages)
            \<le> int (length (all_results p)) + max 0 (m - int (page_count p))"
          using n(1) page(4,5) limit by simp
        note stable = fetch_log_stable_next [OF True page(3) n(2)]
        from len stable eq
        show "int (length pages) \<le> int (length (all_results p)) + max 0 (m - int (page_count p))
          \<and> (\<exists>n. (\<forall>k\<ge>n. fetch_log k w query path (Some m) p
                = fetch_log n w query path (Some m) p)
              \<and> pages = all_results p @ successful_pages (fetch_log n w query path (Some m) p))"
          by blast
      qed
      ultimately show ?thesis
        by blast
    qed
  qed
qed

text \<open>
  Claim C7. With a finite \<^verbatim>\<open>max_pages\<close>, \<^verbatim>\<open>paginate_query\<close> always comes to an end
  (with a list or with an exception). A list it returns has at most \<^verbatim>\<open>max_pages\<close>
  elements (none when \<^verbatim>\<open>max_pages\<close> is not positive), and it is the list of the usable
  results of all the fetches the run made, in the order they were made.
\<close>

theorem paginate_query_bounded_in_order:
  "\<exists>out. paginate_query w query vars path (Some m) s = Some out
     \<and> (\<forall>pages vars' s'. out = (Inr pages, vars', s') \<longrightarrow>
          int (length pages) \<le> max 0 m
          \<and> (\<exists>n. (\<forall>k\<ge>n. fetch_log k w query path (Some m) (initial_pager vars s)
                      = fetch_log n w query path (Some m) (initial_pager vars s))
               \<and> pages = successful_pages
                    (fetch_log n w query path (Some m) (initial_pager vars s))))"
proof -
  have q: "paginate_query w query vars path (Some m) s
      = paginate_loop w query path (Some m) (initial_pager vars s)"
    by (simp add: paginate_query_def initial_pager_def)
  from paginate_loop_finite [of w query path m "initial_pager vars s"]
  obtain out where out: "paginate_loop w query path (Some m) (initial_pager vars s) = Some out"
    "run_from w query path m (initial_pager vars s) out"
    by blast
  have "\<forall>pages vars' s'. out = (Inr pages, vars', s') \<longrightarrow>
      int (length pages) \<le> max 0 m
      \<and> (\<exists>n. (\<forall>k\<ge>n. fetch_log k w query path (Some m) (initial_pager vars s)
                  = fetch_log n w query path (Some m) (initial_pager vars s))
           \<and> pages = successful_pages
                (fetch_log n w query path (Some m) (initial_pager vars s)))"
    using out(2) unfolding run_from_def by (simp add: initial_pager_def)
  with out(1) q show ?thesis
    by simp
qed

theorem paginate_query_bounded_in_order_witness:
  "paginate_query two_page_world ''q'' [(''login'', JStr ''u'')] [''user'', ''followers''] (Some 2)
      one_key_client
     = Some (Inr [first_page_body, second_page_body],
          [(''login'', JStr ''u''), (''after'', JStr ''X'')],
          \<lparr>api_keys = [''A''], current_key_index = 0, posts = 4, draws = 0,
           trace = [RateLimitPost ''A'',
                    DataPost ''A'' [(''query'', JStr ''q''),
                      (''variables'', JObj [(''login'', JStr ''u'')])],
                    SleepHalf,
                    RateLimitPost ''A'',
                    DataPost ''A'' [(''query'', JStr ''q''),
                      (''variables'', JObj [(''login'', JStr ''u''), (''after'', JStr ''X'')])],
                    SleepHalf]\<rparr>)
   \<and> int (length [first_page_body, second_page_body]) \<le> max 0 2
   \<and> (\<exists>n. [first_page_body, second_page_body]
          = successful_pages (fetch_log n two_page_world ''q'' [''user'', ''followers''] (Some 2)
              (initial_pager [(''login'', JStr ''u'')] one_key_client)))"
proof -
  let ?out = "(Inr [first_page_body, second_page_body],
          [(''login'', JStr ''u''), (''after'', JStr ''X'')],
          \<lparr>api_keys = [''A''], current_key_index = 0, posts = 4, draws = 0,
           trace = [RateLimitPost ''A'',
                    DataPost ''A'' [(''query'', JStr ''q''),
                      (''variables'', JObj [(''login'', JStr ''u'')])],
                    SleepHalf,
                    RateLimitPost ''A'',
                    DataPost ''A'' [(''query'', JStr ''q''),
                      (''variables'', JObj [(''login'', JStr ''u''), (''after'', JStr ''X'')])],
                    SleepHalf]\<rparr>)"
  have run: "paginate_query two_page_world ''q'' [(''login'', JStr ''u'')] [''user'', ''followers'']
      (Some 2) one_key_client = Some ?out"
    by (rule two_page_run) simp
  from paginate_query_bounded_in_order
    [of two_page_world "''q''" "[(''login'', JStr ''u'')]" "[''user'', ''followers'']" 2
      one_key_client]
  obtain out where out:
    "paginate_query two_page_world ''q'' [(''login'', JStr ''u'')] [''user'', ''followers'']
      (Some 2) one_key_client = Some out"
    "\<forall>pages vars' s'. out = (Inr pages, vars', s') \<longrightarrow>
      int (length pages) \<le> max 0 2
      \<and> (\<exists>n. (\<forall>k\<ge>n. fetch_log k two_page_world ''q'' [''user'', ''followers''] (Some 2)
                    (initial_pager [(''login'', JStr ''u'')] one_key_client)
                  = fetch_log n two_page_world ''q'' [''user'', ''followers''] (Some 2)
                    (initial_pager [(''login'', JStr ''u'')] one_key_client))
           \<and> pages = successful_pages
                (fetch_log n two_page_world ''q'' [''user'', ''followers''] (Some 2)
                  (initial_pager [(''login'', JStr ''u'')] one_key_client)))"
    by blast
  from out(1) run have "out = ?out"
    by simp
  with out(2) have "int (length [first_page_body, second_page_body]) \<le> max 0 2
      \<and> (\<exists>n. [first_page_body, second_page_body]
          = successful_pages (fetch_log n two_page_world ''q'' [''user'', ''followers''] (Some 2)
              (initial_pager [(''login'', JStr ''u'')] one_key_client)))"
    by blast
  with run show ?thesis
    by blast
qed

section \<open>The waits of the retry loop\<close>







section \<open>Which cursor the caller's dictionary holds\<close>

lemma paginate_step_dictionary:
  assumes "keeps_going max_pages p"
    and "d = (if py_truthy (cursor p) then AList.update ''after'' (cursor p) (variables p)
              else variables p)"
    and "execute_query w query (Some d) 5 (client p) = (r, s1)"
  shows "(\<forall>p'. paginate_step w query path max_pages p = Next p' \<longrightarrow>
            variables p' = d \<and> (client p' = sleep_half s1 \<or> (\<exists>n. client p' = sleep n s1)))
       \<and> (\<forall>out v s'. paginate_step w query path max_pages p = Stop (out, v, s') \<longrightarrow>
            v = d \<and> s' = s1)"
proof -
  have d: "request_variables p = d"
    using assms(2) by (simp add: request_variables_def)
  have e: "execute_query w query (Some (request_variables p)) 5 (client p) = (r, s1)"
    using assms(3) d by simp
  show ?thesis
  proof (cases "no_usable_result r")
    case True
    have "paginate_step w query path max_pages p = on_failure p (request_variables p) s1"
      using assms(1) e True by (rule paginate_step_failure)
    then show ?thesis
      by (auto simp: on_failure_def Let_def d split: if_splits)
  next
    case False
    then obtain v where r: "r = Some v"
      by (cases r) (simp_all add: no_usable_result_def)
    have "paginate_step w query path max_pages p
        = (case py_in ''data'' v of
             Inl e \<Rightarrow> Stop (Inl e, request_variables p, s1)
           | Inr b \<Rightarrow> on_success path p (request_variables p) v s1)"
      using paginate_step_success [OF assms(1), of w query v s1 path] e False r by simp
    then show ?thesis
      by (auto simp: on_success_def d split: sum.splits prod.splits)
  qed
qed

lemma paginate_step_next_variables:
  assumes "keeps_going max_pages p" and "paginate_step w query path max_pages p = Next p'"
  shows "variables p' = (if py_truthy (cursor p)
    then AList.update ''after'' (cursor p) (variables p) else variables p)"
proof -
  obtain r s1 where "execute_query w query
      (Some (if py_truthy (cursor p) then AList.update ''after'' (cursor p) (variables p)
             else variables p)) 5 (client p) = (r, s1)"
    by (cases "execute_query w query
      (Some (if py_truthy (cursor p) then AList.update ''after'' (cursor p) (variables p)
             else variables p)) 5 (client p)")
  from paginate_step_dictionary [OF assms(1) refl this, of path] assms(2) show ?thesis
    by blast
qed

lemma paginate_step_stop_variables:
  assumes "paginate_step w query path max_pages p = Stop (out, v, s')"
  shows "v = (if keeps_going max_pages p \<and> py_truthy (cursor p)
    then AList.update ''after'' (cursor p) (variables p) else variables p)"
proof (cases "keeps_going max_pages p")
  case False
  with assms show ?thesis
    by (simp add: paginate_step_def)
next
  case True
  obtain r s1 where "execute_query w query
      (Some (if py_truthy (cursor p) then AList.update ''after'' (cursor p) (variables p)
             else variables p)) 5 (client p) = (r, s1)"
    by (cases "execute_query w query
      (Some (if py_truthy (cursor p) then AList.update ''after'' (cursor p) (variables p)
             else variables p)) 5 (client p)")
  from paginate_step_dictionary [OF True refl this, of path] assms True show ?thesis
    by auto
qed

lemma cursor_log_stopped:
  "\<not> keeps_going max_pages p \<Longrightarrow> cursor_log k w query path max_pages p = []"
  by (cases k) simp_all

lemma cursor_log_last:
  assumes "keeps_going max_pages p" and "paginate_step w query path max_pages p = Stop out"
    and "Suc 0 \<le> k"
  shows "cursor_log k w query path max_pages p = [cursor p]"
  using assms by (cases k) simp_all

lemma cursor_log_next:
  assumes "keeps_going max_pages p" and "paginate_step w query path max_pages p = Next p'"
  shows "cursor_log (Suc k) w query path max_pages p
    = cursor p # cursor_log k w query path max_pages p'"
  using assms by simp

declare cursor_log.simps [simp del]

lemma cursor_log_stable_next:
  assumes "keeps_going max_pages p" and "paginate_step w query path max_pages p = Next p'"
    and "\<forall>k\<ge>n. cursor_log k w query path max_pages p' = cursor_log n w query path max_pages p'"
  shows "\<forall>k\<ge>Suc n. cursor_log k w query path max_pages p
    = cursor_log (Suc n) w query path max_pages p"
proof (intro allI impI)
  fix k
  assume "Suc n \<le> k"
  then obtain k' where k: "k = Suc k'" "n \<le> k'"
    by (cases k) simp_all
  from assms(3) k(2) have same: "cursor_log k' w query path max_pages p'
      = cursor_log n w query path max_pages p'"
    by blast
  have "cursor_log k w query path max_pages p
      = cursor p # cursor_log k' w query path max_pages p'"
    unfolding k(1) using assms(1,2) by (rule cursor_log_next)
  also have "\<dots> = cursor_log (Suc n) w query path max_pages p"
    unfolding same using assms(1,2) by (rule cursor_log_next [symmetric])
  finally show "cursor_log k w query path max_pages p
      = cursor_log (Suc n) w query path max_pages p" .
qed

lemma after_cursors_Nil [simp]: "after_cursors vars [] = vars"
  by (simp add: after_cursors_def)

lemma after_cursors_Cons:
  "after_cursors vars (c # cs)
    = after_cursors (if py_truthy c then AList.update ''after'' c vars else vars) cs"
  by (simp add: after_cursors_def split: list.splits)

lemma paginate_loop_dictionary:
  assumes "paginate_loop w query path max_pages p = Some y"
  shows "\<exists>n. (\<forall>k\<ge>n. cursor_log k w query path max_pages p = cursor_log n w query path max_pages p)
    \<and> fst (snd y) = after_cursors (variables p) (cursor_log n w query path max_pages p)"
proof (rule paginate_loop.raw_induct
    [where P = "\<lambda>w query path max_pages p y.
       \<exists>n. (\<forall>k\<ge>n. cursor_log k w query path max_pages p
                = cursor_log n w query path max_pages p)
         \<and> fst (snd y) = after_cursors (variables p) (cursor_log n w query path max_pages p)",
     OF _ assms])
  fix loop :: "world \<Rightarrow> string \<Rightarrow> string list \<Rightarrow> int option \<Rightarrow> pager_state
    \<Rightarrow> paginate_outcome option"
  fix w query path max_pages p y
  assume IH: "\<And>w query path max_pages p y. loop w query path max_pages p = Some y \<Longrightarrow>
      \<exists>n. (\<forall>k\<ge>n. cursor_log k w query path max_pages p
               = cursor_log n w query path max_pages p)
        \<and> fst (snd y) = after_cursors (variables p) (cursor_log n w query path max_pages p)"
    and eq: "(case paginate_step w query path max_pages p of
        Stop out \<Rightarrow> Some out
      | Next p' \<Rightarrow> loop w query path max_pages p') = Some y"
  show "\<exists>n. (\<forall>k\<ge>n. cursor_log k w query path max_pages p
               = cursor_log n w query path max_pages p)
        \<and> fst (snd y) = after_cursors (variables p) (cursor_log n w query path max_pages p)"
  proof (cases "paginate_step w query path max_pages p")
    case (Stop out)
    with eq have st: "paginate_step w query path max_pages p
        = Stop (fst y, fst (snd y), snd (snd y))"
      by simp
    note v = paginate_step_stop_variables [OF st]
    show ?thesis
    proof (cases "keeps_going max_pages p")
      case False
      with v have "(\<forall>k\<ge>0. cursor_log k w query path max_pages p
            = cursor_log 0 w query path max_pages p)
          \<and> fst (snd y) = after_cursors (variables p) (cursor_log 0 w query path max_pages p)"
        by (simp add: cursor_log_stopped)
      then show ?thesis
        by blast
    next
      case True
      with v have "(\<forall>k\<ge>Suc 0. cursor_log k w query path max_pages p
            = cursor_log (Suc 0) w query path max_pages p)
          \<and> fst (snd y)
            = after_cursors (variables p) (cursor_log (Suc 0) w query path max_pages p)"
        by (simp add: cursor_log_last [OF True st] after_cursors_Cons)
      then show ?thesis
        by blast
    qed
  next
    case (Next p')
    then have going: "keeps_going max_pages p"
      by (auto simp: paginate_step_def split: if_splits)
    from Next eq have "loop w query path max_pages p' = Some y"
      by simp
    from IH [OF this] obtain n where n:
      "\<forall>k\<ge>n. cursor_log k w query path max_pages p' = cursor_log n w query path max_pages p'"
      "fst (snd y) = after_cursors (variables p') (cursor_log n w query path max_pages p')"
      by blast
    have "fst (snd y)
        = after_cursors (variables p) (cursor_log (Suc n) w query path max_pages p)"
      using n(2) paginate_step_next_variables [OF going Next]
      by (simp add: cursor_log_next [OF going Next] after_cursors_Cons)
    with cursor_log_stable_next [OF going Next n(1)] show ?thesis
      by blast
  qed
qed

text \<open>
  Claim C10, as amended. \<^verbatim>\<open>paginate_query\<close> updates the caller's dictionary in place.
  An iteration that starts with a truthy cursor sets \<^verbatim>\<open>after\<close> to that cursor,
  overwriting an earlier value; one that starts with a falsy cursor leaves the dictionary
  as it is. \<^verbatim>\<open>execute_query\<close> is called with that dictionary, and the iteration leaves
  it so whether the loop goes on or ends there. Nothing restores or removes the key: on
  return the dictionary is the caller's with \<^verbatim>\<open>after\<close> set to the last truthy
  cursor an iteration started with, and the caller's own when there was none. A cursor
  read from the last page fetched is not written.
\<close>

theorem variables_updated_in_place:
  "(keeps_going max_pages p
      \<and> d = (if py_truthy (cursor p) then AList.update ''after'' (cursor p) (variables p)
             else variables p)
      \<and> execute_query w query (Some d) 5 (client p) = (r, s1) \<longrightarrow>
        (\<forall>p'. paginate_step w query path max_pages p = Next p' \<longrightarrow>
           variables p' = d \<and> (client p' = sleep_half s1 \<or> (\<exists>n. client p' = sleep n s1)))
      \<and> (\<forall>out v s'. paginate_step w query path max_pages p = Stop (out, v, s') \<longrightarrow>
           v = d \<and> s' = s1))
   \<and> (paginate_query w query vars path max_pages s = Some (out2, vars2, s2) \<longrightarrow>
        (\<exists>n. (\<forall>k\<ge>n. cursor_log k w query path max_pages (initial_pager vars s)
                    = cursor_log n w query path max_pages (initial_pager vars s))
           \<and> (filter py_truthy (cursor_log n w query path max_pages (initial_pager vars s)) = []
                \<longrightarrow> vars2 = vars)
           \<and> (filter py_truthy (cursor_log n w query path max_pages (initial_pager vars s)) \<noteq> []
                \<longrightarrow> vars2 = AList.update ''after''
                      (last (filter py_truthy
                        (cursor_log n w query path max_pages (initial_pager vars s)))) vars)))"
proof (intro conjI impI)
  assume "keeps_going max_pages p
      \<and> d = (if py_truthy (cursor p) then AList.update ''after'' (cursor p) (variables p)
             else variables p)
      \<and> execute_query w query (Some d) 5 (client p) = (r, s1)"
  then have a: "keeps_going max_pages p"
    and b: "d = (if py_truthy (cursor p) then AList.update ''after'' (cursor p) (variables p)
             else variables p)"
    and c: "execute_query w query (Some d) 5 (client p) = (r, s1)"
    by blast+
  from paginate_step_dictionary [OF a b c, of path]
  show "\<forall>p'. paginate_step w query path max_pages p = Next p' \<longrightarrow>
      variables p' = d \<and> (client p' = sleep_half s1 \<or> (\<exists>n. client p' = sleep n s1))"
    and "\<forall>out v s'. paginate_step w query path max_pages p = Stop (out, v, s') \<longrightarrow>
      v = d \<and> s' = s1"
    by blast+
next
  assume "paginate_query w query vars path max_pages s = Some (out2, vars2, s2)"
  then have "paginate_loop w query path max_pages (initial_pager vars s) = Some (out2, vars2, s2)"
    by (simp add: paginate_query_def initial_pager_def)
  from paginate_loop_dictionary [OF this] obtain n where n:
    "\<forall>k\<ge>n. cursor_log k w query path max_pages (initial_pager vars s)
        = cursor_log n w query path max_pages (initial_pager vars s)"
    "fst (snd (out2, vars2, s2)) = after_cursors (variables (initial_pager vars s))
        (cursor_log n w query path max_pages (initial_pager vars s))"
    by blast
  have iv: "variables (initial_pager vars s) = vars"
    by (simp add: initial_pager_def)
  from n(2) have v2: "vars2
      = after_cursors vars (cursor_log n w query path max_pages (initial_pager vars s))"
    unfolding iv by simp
  from v2 have "(filter py_truthy (cursor_log n w query path max_pages (initial_pager vars s)) = []
        \<longrightarrow> vars2 = vars)
      \<and> (filter py_truthy (cursor_log n w query path max_pages (initial_pager vars s)) \<noteq> []
        \<longrightarrow> vars2 = AList.update ''after''
              (last (filter py_truthy
                (cursor_log n w query path max_pages (initial_pager vars s)))) vars)"
    by (simp add: after_cursors_def split: list.splits)
  with n(1) show "\<exists>n. (\<forall>k\<ge>n. cursor_log k w query path max_pages (initial_pager vars s)
                    = cursor_log n w query path max_pages (initial_pager vars s))
           \<and> (filter py_truthy (cursor_log n w query path max_pages (initial_pager vars s)) = []
                \<longrightarrow> vars2 = vars)
           \<and> (filter py_truthy (cursor_log n w query path max_pages (initial_pager vars s)) \<noteq> []
                \<longrightarrow> vars2 = AList.update ''after''
                      (last (filter py_truthy
                        (cursor_log n w query path max_pages (initial_pager vars s)))) vars)"
    by blast
qed

lemma two_page_steps:
  "paginate_step two_page_world ''q'' [''user'', ''followers''] None
      (initial_pager [(''login'', JStr ''u'')] one_key_client)
     = Next \<lparr>variables = [(''login'', JStr ''u'')], all_results = [first_page_body],
         has_next = True, cursor = JStr ''X'', page_count = 1, consecutive_failures = 0,
         client = \<lparr>api_keys = [''A''], current_key_index = 0, posts = 2, draws = 0,
           trace = [RateLimitPost ''A'',
                    DataPost ''A'' [(''query'', JStr ''q''),
                      (''variables'', JObj [(''login'', JStr ''u'')])],
                    SleepHalf]\<rparr>\<rparr>"
  "execute_query two_page_world ''q''
      (Some [(''login'', JStr ''u''), (''after'', JStr ''X'')]) 5
      \<lparr>api_keys = [''A''], current_key_index = 0, posts = 2, draws = 0,
       trace = [RateLimitPost ''A'',
                DataPost ''A'' [(''query'', JStr ''q''),
                  (''variables'', JObj [(''login'', JStr ''u'')])],
                SleepHalf]\<rparr>
     = (Some second_page_body,
        \<lparr>api_keys = [''A''], current_key_index = 0, posts = 4, draws = 0,
         trace = [RateLimitPost ''A'',
                  DataPost ''A'' [(''query'', JStr ''q''),
                    (''variables'', JObj [(''login'', JStr ''u'')])],
                  SleepHalf,
                  RateLimitPost ''A'',
                  DataPost ''A'' [(''query'', JStr ''q''),
                    (''variables'', JObj [(''login'', JStr ''u''), (''after'', JStr ''X'')])]]\<rparr>)"
  "paginate_step two_page_world ''q'' [''user'', ''followers''] None
      \<lparr>variables = [(''login'', JStr ''u'')], all_results = [first_page_body],
         has_next = True, cursor = JStr ''X'', page_count = 1, consecutive_failures = 0,
         client = \<lparr>api_keys = [''A''], current_key_index = 0, posts = 2, draws = 0,
           trace = [RateLimitPost ''A'',
                    DataPost ''A'' [(''query'', JStr ''q''),
                      (''variables'', JObj [(''login'', JStr ''u'')])],
                    SleepHalf]\<rparr>\<rparr>
     = Next \<lparr>variables = [(''login'', JStr ''u''), (''after'', JStr ''X'')],
         all_results = [first_page_body, second_page_body],
         has_next = False, cursor = JStr ''Y'', page_count = 2, consecutive_failures = 0,
         client = \<lparr>api_keys = [''A''], current_key_index = 0, posts = 4, draws = 0,
           trace = [RateLimitPost ''A'',
                    DataPost ''A'' [(''query'', JStr ''q''),
                      (''variables'', JObj [(''login'', JStr ''u'')])],
                    SleepHalf,
                    RateLimitPost ''A'',
                    DataPost ''A'' [(''query'', JStr ''q''),
                      (''variables'', JObj [(''login'', JStr ''u''), (''after'', JStr ''X'')])],
                    SleepHalf]\<rparr>\<rparr>"
proof -
  let ?v = "[(''login'', JStr ''u'')]"
  let ?v2 = "[(''login'', JStr ''u''), (''after'', JStr ''X'')]"
  let ?d1 = "DataPost ''A'' [(''query'', JStr ''q''), (''variables'', JObj ?v)]"
  let ?d2 = "DataPost ''A'' [(''query'', JStr ''q''), (''variables'', JObj ?v2)]"
  let ?s2 = "\<lparr>api_keys = [''A''], current_key_index = 0, posts = 2, draws = 0,
    trace = [RateLimitPost ''A'', ?d1]\<rparr>"
  let ?s2h = "\<lparr>api_keys = [''A''], current_key_index = 0, posts = 2, draws = 0,
    trace = [RateLimitPost ''A'', ?d1, SleepHalf]\<rparr>"
  let ?s4 = "\<lparr>api_keys = [''A''], current_key_index = 0, posts = 4, draws = 0,
    trace = [RateLimitPost ''A'', ?d1, SleepHalf, RateLimitPost ''A'', ?d2]\<rparr>"
  have e1: "execute_query two_page_world ''q'' (Some ?v) 5 one_key_client
      = (Some first_page_body, ?s2)"
    using execute_query_success_at [of one_key_client two_page_world _ "''q''" "Some ?v"]
    by (simp add: two_page_world_def first_page_body_def one_key_client_def payload_of_def)
  show e2: "execute_query two_page_world ''q'' (Some ?v2) 5 ?s2h
      = (Some second_page_body, ?s4)"
    using execute_query_success_at [of ?s2h two_page_world _ "''q''" "Some ?v2"]
    by (simp add: two_page_world_def second_page_body_def payload_of_def)
  show "paginate_step two_page_world ''q'' [''user'', ''followers''] None
      (initial_pager ?v one_key_client)
     = Next \<lparr>variables = ?v, all_results = [first_page_body],
         has_next = True, cursor = JStr ''X'', page_count = 1, consecutive_failures = 0,
         client = ?s2h\<rparr>"
    by (simp add: initial_pager_def paginate_step_def keeps_going_def request_variables_def e1
        first_page_body_def on_success_def read_page_info_def try_then_def Let_def
        sleep_half_def)
  show "paginate_step two_page_world ''q'' [''user'', ''followers''] None
      \<lparr>variables = ?v, all_results = [first_page_body],
         has_next = True, cursor = JStr ''X'', page_count = 1, consecutive_failures = 0,
         client = ?s2h\<rparr>
     = Next \<lparr>variables = ?v2,
         all_results = [first_page_body, second_page_body],
         has_next = False, cursor = JStr ''Y'', page_count = 2, consecutive_failures = 0,
         client = \<lparr>api_keys = [''A''], current_key_index = 0, posts = 4, draws = 0,
           trace = [RateLimitPost ''A'', ?d1, SleepHalf, RateLimitPost ''A'', ?d2,
                    SleepHalf]\<rparr>\<rparr>"
    by (simp add: paginate_step_def keeps_going_def request_variables_def e2
        second_page_body_def on_success_def read_page_info_def try_then_def Let_def
        sleep_half_def)
qed

lemma two_page_cursor_log:
  "cursor_log (Suc (Suc k)) two_page_world ''q'' [''user'', ''followers''] None
      (initial_pager [(''login'', JStr ''u'')] one_key_client) = [JNull, JStr ''X'']"
proof -
  let ?p0 = "initial_pager [(''login'', JStr ''u'')] one_key_client"
  let ?p1 = "\<lparr>variables = [(''login'', JStr ''u'')], all_results = [first_page_body],
         has_next = True, cursor = JStr ''X'', page_count = 1, consecutive_failures = 0,
         client = \<lparr>api_keys = [''A''], current_key_index = 0, posts = 2, draws = 0,
           trace = [RateLimitPost ''A'',
                    DataPost ''A'' [(''query'', JStr ''q''),
                      (''variables'', JObj [(''login'', JStr ''u'')])],
                    SleepHalf]\<rparr>\<rparr>"
  let ?p2 = "\<lparr>variables = [(''login'', JStr ''u''), (''after'', JStr ''X'')],
         all_results = [first_page_body, second_page_body],
         has_next = False, cursor = JStr ''Y'', page_count = 2, consecutive_failures = 0,
         client = \<lparr>api_keys = [''A''], current_key_index = 0, posts = 4, draws = 0,
           trace = [RateLimitPost ''A'',
                    DataPost ''A'' [(''query'', JStr ''q''),
                      (''variables'', JObj [(''login'', JStr ''u'')])],
                    SleepHalf,
                    RateLimitPost ''A'',
                    DataPost ''A'' [(''query'', JStr ''q''),
                      (''variables'', JObj [(''login'', JStr ''u''), (''after'', JStr ''X'')])],
                    SleepHalf]\<rparr>\<rparr>"
  have k0: "keeps_going None ?p0" and c0: "cursor ?p0 = JNull"
    by (simp_all add: keeps_going_def initial_pager_def)
  have k1: "keeps_going None ?p1" and c1: "cursor ?p1 = JStr ''X''"
    by (simp_all add: keeps_going_def)
  have k2: "\<not> keeps_going None ?p2"
    by (simp add: keeps_going_def)
  have "cursor_log (Suc (Suc k)) two_page_world ''q'' [''user'', ''followers''] None ?p0
      = cursor ?p0 # cursor_log (Suc k) two_page_world ''q'' [''user'', ''followers''] None ?p1"
    using k0 two_page_steps(1) by (rule cursor_log_next)
  also have "cursor_log (Suc k) two_page_world ''q'' [''user'', ''followers''] None ?p1
      = cursor ?p1 # cursor_log k two_page_world ''q'' [''user'', ''followers''] None ?p2"
    using k1 two_page_steps(3) by (rule cursor_log_next)
  also have "cursor_log k two_page_world ''q'' [''user'', ''followers''] None ?p2 = []"
    using k2 by (rule cursor_log_stopped)
  finally show ?thesis
    unfolding c0 c1 .
qed

theorem variables_updated_in_place_witness:
  "paginate_query two_page_world ''q'' [(''login'', JStr ''u'')] [''user'', ''followers''] None
      one_key_client
     = Some (Inr [first_page_body, second_page_body],
          [(''login'', JStr ''u''), (''after'', JStr ''X'')],
          \<lparr>api_keys = [''A''], current_key_index = 0, posts = 4, draws = 0,
           trace = [RateLimitPost ''A'',
                    DataPost ''A'' [(''query'', JStr ''q''),
                      (''variables'', JObj [(''login'', JStr ''u'')])],
                    SleepHalf,
                    RateLimitPost ''A'',
                    DataPost ''A'' [(''query'', JStr ''q''),
                      (''variables'', JObj [(''login'', JStr ''u''), (''after'', JStr ''X'')])],
                    SleepHalf]\<rparr>)
   \<and> filter py_truthy (cursor_log 2 two_page_world ''q'' [''user'', ''followers''] None
        (initial_pager [(''login'', JStr ''u'')] one_key_client)) = [JStr ''X'']
   \<and> [(''login'', JStr ''u''), (''after'', JStr ''X'')]
        = AList.update ''after'' (JStr ''X'') [(''login'', JStr ''u'')]"
proof -
  let ?v = "[(''login'', JStr ''u'')]"
  let ?v2 = "[(''login'', JStr ''u''), (''after'', JStr ''X'')]"
  let ?path = "[''user'', ''followers'']"
  let ?log = "\<lambda>n. cursor_log n two_page_world ''q'' ?path None (initial_pager ?v one_key_client)"
  have run: "paginate_query two_page_world ''q'' ?v ?path None one_key_client
     = Some (Inr [first_page_body, second_page_body], ?v2,
          \<lparr>api_keys = [''A''], current_key_index = 0, posts = 4, draws = 0,
           trace = [RateLimitPost ''A'',
                    DataPost ''A'' [(''query'', JStr ''q''), (''variables'', JObj ?v)],
                    SleepHalf,
                    RateLimitPost ''A'',
                    DataPost ''A'' [(''query'', JStr ''q''), (''variables'', JObj ?v2)],
                    SleepHalf]\<rparr>)"
    by (rule two_page_run) simp
  have log2: "?log 2 = [JNull, JStr ''X'']"
    using two_page_cursor_log [of 0] by (simp add: numeral_2_eq_2)
  note loop_part = variables_updated_in_place
    [of None _ _ two_page_world "''q''" _ _ ?path ?v one_key_client, THEN conjunct2, rule_format,
     OF run]
  from loop_part obtain n where all:
    "(\<forall>k\<ge>n. ?log k = ?log n)
     \<and> (filter py_truthy (?log n) = [] \<longrightarrow> ?v2 = ?v)
     \<and> (filter py_truthy (?log n) \<noteq> [] \<longrightarrow>
          ?v2 = AList.update ''after'' (last (filter py_truthy (?log n))) ?v)"
    by (rule exE)
  from all have stable: "\<forall>k\<ge>n. ?log k = ?log n"
    by (rule conjunct1)
  from all have written: "filter py_truthy (?log n) \<noteq> [] \<longrightarrow>
      ?v2 = AList.update ''after'' (last (filter py_truthy (?log n))) ?v"
    by (rule conjunct2 [THEN conjunct2])
  have le: "n \<le> Suc (Suc n)"
    by simp
  have "?log (Suc (Suc n)) = ?log n"
    by (rule stable [rule_format, OF le])
  then have logn: "?log n = [JNull, JStr ''X'']"
    using two_page_cursor_log [of n] by simp
  have used: "filter py_truthy [JNull, JStr ''X''] = [JStr ''X'']"
    by simp
  from written have "?v2 = AList.update ''after'' (JStr ''X'') ?v"
    unfolding logn used by simp
  with run log2 used show ?thesis
    by (simp only: simp_thms)
qed

end
